theory Spec2Isabelle
  imports Complex_Main "HOL-Library.AList"
begin

section \<open>JavaScript strings and numbers\<close>

text \<open>
  The colour engine of \<^verbatim>\<open>src/App.tsx\<close> works on strings and on JavaScript numbers.
  A string is a \<open>char list\<close>; a character stands for one code unit below 256.
  A number is a real, or \<open>None\<close> for \<^verbatim>\<open>NaN\<close>. For luminance, contrast and hue the
  rounding of IEEE doubles is not part of the model: a statement about a ratio or an
  angle is a statement about the exact value of the formula the code evaluates. The CMYK
  report prints digits that depend on the rounding, so there every operation is rounded
  to the nearest double. Infinities do not occur: the only divisions are by 255, by
  constants and by quantities shown positive below.
\<close>

type_synonym jsnum = "real option"

definition num_lt :: "jsnum \<Rightarrow> real \<Rightarrow> bool" where
  \<comment> \<open>\<^verbatim>\<open>x < c\<close>: false when \<open>x\<close> is NaN\<close>
  "num_lt x c = (case x of None \<Rightarrow> False | Some v \<Rightarrow> v < c)"

definition num_ge :: "jsnum \<Rightarrow> real \<Rightarrow> bool" where
  \<comment> \<open>\<^verbatim>\<open>x >= c\<close>: false when \<open>x\<close> is NaN\<close>
  "num_ge x c = (case x of None \<Rightarrow> False | Some v \<Rightarrow> c \<le> v)"

definition num_gt :: "jsnum \<Rightarrow> real \<Rightarrow> bool" where
  \<comment> \<open>\<^verbatim>\<open>x > c\<close>: false when \<open>x\<close> is NaN\<close>
  "num_gt x c = (case x of None \<Rightarrow> False | Some v \<Rightarrow> c < v)"

definition slice :: "nat \<Rightarrow> nat \<Rightarrow> string \<Rightarrow> string" where
  \<comment> \<open>\<^verbatim>\<open>s.slice(a, b)\<close> for non-negative \<open>a \<le> b\<close>; both ends are clipped to the length\<close>
  "slice a b s = take (b - a) (drop a s)"

definition replaceHash :: "string \<Rightarrow> string" where
  \<comment> \<open>\<^verbatim>\<open>s.replace("#", "")\<close>: a string pattern replaces the first occurrence only\<close>
  "replaceHash s = remove1 (CHR ''#'') s"

definition hexDigitValue :: "char \<Rightarrow> nat option" where
  "hexDigitValue c = (let n = (of_char c :: nat) in
     if 48 \<le> n \<and> n \<le> 57 then Some (n - 48)
     else if 97 \<le> n \<and> n \<le> 102 then Some (n - 87)
     else if 65 \<le> n \<and> n \<le> 70 then Some (n - 55)
     else None)"

definition isHexDigit :: "char \<Rightarrow> bool" where
  "isHexDigit c = (hexDigitValue c \<noteq> None)"

definition isWhiteSpace :: "char \<Rightarrow> bool" where
  \<comment> \<open>the white space and line terminators below 256: TAB, LF, VT, FF, CR, SP, NBSP\<close>
  "isWhiteSpace c = ((of_char c :: nat) \<in> {9, 10, 11, 12, 13, 32, 160})"

definition digitsValue :: "string \<Rightarrow> nat" where
  "digitsValue ds =
     foldl (\<lambda>acc c. case hexDigitValue c of Some d \<Rightarrow> 16 * acc + d | None \<Rightarrow> acc) 0 ds"

definition stripSign :: "string \<Rightarrow> bool \<times> string" where
  "stripSign t = (case t of
       [] \<Rightarrow> (False, [])
     | c # cs \<Rightarrow> if c = CHR ''-'' then (True, cs)
                else if c = CHR ''+'' then (False, cs)
                else (False, t))"

definition stripHexPrefix :: "string \<Rightarrow> string" where
  "stripHexPrefix t = (case t of
       a # b # cs \<Rightarrow> if a = CHR ''0'' \<and> (b = CHR ''x'' \<or> b = CHR ''X'') then cs else t
     | _ \<Rightarrow> t)"

definition parseInt16 :: "string \<Rightarrow> int option" where
  \<comment> \<open>\<^verbatim>\<open>parseInt(s, 16)\<close>: leading white space, a sign, a \<^verbatim>\<open>0x\<close> prefix, then the longest
      run of hex digits; NaN when that run is empty\<close>
  "parseInt16 s =
     (let (neg, t) = stripSign (dropWhile isWhiteSpace s);
          ds = takeWhile isHexDigit (stripHexPrefix t)
      in if ds = [] then None
         else Some (if neg then - int (digitsValue ds) else int (digitsValue ds)))"

definition wfHex :: "string \<Rightarrow> bool" where
  \<comment> \<open>a well-formed colour: \<^verbatim>\<open>#\<close> and exactly six hex digits\<close>
  "wfHex s = (case s of
       [] \<Rightarrow> False
     | c # cs \<Rightarrow> c = CHR ''#'' \<and> length cs = 6 \<and> list_all isHexDigit cs)"

section \<open>Relative luminance and contrast ratio\<close>

text \<open>
  \<^verbatim>\<open>
  function luminance(hex: string) {
    const r = parseInt(hex.slice(1, 3), 16) / 255;
    const g = parseInt(hex.slice(3, 5), 16) / 255;
    const b = parseInt(hex.slice(5, 7), 16) / 255;
    const f = (c: number) => (c <= 0.03928 ? c / 12.92 : Math.pow((c + 0.055) / 1.055, 2.4));
    return 0.2126 * f(r) + 0.7152 * f(g) + 0.0722 * f(b);
  }
  function contrastRatio(a: string, b: string) {
    const la = luminance(a) + 0.05;
    const lb = luminance(b) + 0.05;
    return la > lb ? la / lb : lb / la;
  }
  \<close>
  \<open>gammaWCAG\<close> is the inner function \<^verbatim>\<open>f\<close>. \<^verbatim>\<open>Math.pow\<close> is only reached with a
  positive base, where it is \<open>powr\<close>. A NaN channel makes the whole sum NaN.
\<close>

definition gammaWCAG :: "real \<Rightarrow> real" where
  "gammaWCAG c = (if c \<le> 0.03928 then c / 12.92 else ((c + 0.055) / 1.055) powr 2.4)"

definition luminance :: "string \<Rightarrow> jsnum" where
  "luminance hex =
     (case (parseInt16 (slice 1 3 hex), parseInt16 (slice 3 5 hex), parseInt16 (slice 5 7 hex)) of
        (Some r, Some g, Some b) \<Rightarrow>
          Some (0.2126 * gammaWCAG (real_of_int r / 255)
              + 0.7152 * gammaWCAG (real_of_int g / 255)
              + 0.0722 * gammaWCAG (real_of_int b / 255))
      | _ \<Rightarrow> None)"

definition contrastRatio :: "string \<Rightarrow> string \<Rightarrow> jsnum" where
  "contrastRatio a b =
     (case (luminance a, luminance b) of
        (Some x, Some y) \<Rightarrow>
          (let la = x + 0.05; lb = y + 0.05 in Some (if la > lb then la / lb else lb / la))
      | _ \<Rightarrow> None)"

text \<open>
  \<^verbatim>\<open>
  function toLinear(v: number) { v /= 255; return v <= 0.04045 ? v/12.92 : Math.pow((v+0.055)/1.055, 2.4); }
  \<close>
  The linearisation local to \<^verbatim>\<open>exportToLAB\<close> and \<^verbatim>\<open>exportToOKLCH\<close>.
\<close>

definition toLinear :: "real \<Rightarrow> real" where
  "toLinear v0 = (let v = v0 / 255 in
     if v \<le> 0.04045 then v / 12.92 else ((v + 0.055) / 1.055) powr 2.4)"

section \<open>Auto-contrast repair\<close>

text \<open>
  \<^verbatim>\<open>
  function fixTextContrast(swatches: string[], customSwatches: Record<number,string>): Record<number,string> {
    // Identify background (index 0) and text-ish colors (indices >= 3)
    const bg = customSwatches[0] ?? swatches[0];
    const next = { ...customSwatches };
    swatches.forEach((_, i) => {
      if (i < 3) return; // only fix text/primary colors
      const current = next[i] ?? swatches[i];
      let ratio = contrastRatio(current, bg);
      if (ratio >= 4.5) return; // already passes AA
      // Try lightening or darkening
      let hex = current.replace("#", "");
      let r = parseInt(hex.slice(0,2),16), g = parseInt(hex.slice(2,4),16), b = parseInt(hex.slice(4,6),16);
      const isDark = luminance(bg) > 0.5;
      for (let step = 0; step < 20 && ratio < 4.5; step++) {
        if (isDark) { r=Math.min(255,r+12); g=Math.min(255,g+12); b=Math.min(255,b+12); }
        else       { r=Math.max(0,r-12);   g=Math.max(0,g-12);   b=Math.max(0,b-12); }
        const fixed = "#" + [r,g,b].map(v => v.toString(16).padStart(2,"0")).join("");
        ratio = contrastRatio(fixed, bg);
        if (ratio >= 4.5) { next[i] = fixed; break; }
      }
    });
    return next;
  }
  \<close>
  A channel is an integer or NaN (\<open>None\<close>). The record of overrides is a map from indices
  to strings; a missing key reads as \<^verbatim>\<open>undefined\<close>, which \<^verbatim>\<open>??\<close> replaces.
\<close>

type_synonym channel = "int option"

definition hexDigitChar :: "nat \<Rightarrow> char" where
  "hexDigitChar d = ''0123456789abcdef'' ! d"

fun natToHex :: "nat \<Rightarrow> string" where
  "natToHex n = (if n < 16 then [hexDigitChar n]
                 else natToHex (n div 16) @ [hexDigitChar (n mod 16)])"

declare natToHex.simps [simp del]

definition toString16 :: "channel \<Rightarrow> string" where
  \<comment> \<open>\<^verbatim>\<open>v.toString(16)\<close> on an integer or NaN\<close>
  "toString16 v = (case v of
       None \<Rightarrow> ''NaN''
     | Some n \<Rightarrow> if n < 0 then CHR ''-'' # natToHex (nat (- n)) else natToHex (nat n))"

definition padStart2 :: "string \<Rightarrow> string" where
  \<comment> \<open>\<^verbatim>\<open>s.padStart(2, "0")\<close>\<close>
  "padStart2 s = replicate (2 - length s) (CHR ''0'') @ s"

definition stepChannel :: "bool \<Rightarrow> channel \<Rightarrow> channel" where
  \<comment> \<open>\<^verbatim>\<open>Math.min(255, v+12)\<close> when the flag is set, \<^verbatim>\<open>Math.max(0, v-12)\<close> otherwise\<close>
  "stepChannel isDark v = (case v of
       None \<Rightarrow> None
     | Some n \<Rightarrow> Some (if isDark then min 255 (n + 12) else max 0 (n - 12)))"

definition fixedHex :: "channel \<times> channel \<times> channel \<Rightarrow> string" where
  "fixedHex rgb = (case rgb of (r, g, b) \<Rightarrow>
     CHR ''#'' # concat (map (\<lambda>v. padStart2 (toString16 v)) [r, g, b]))"

definition stepRGB :: "bool \<Rightarrow> channel \<times> channel \<times> channel \<Rightarrow> channel \<times> channel \<times> channel" where
  "stepRGB isDark rgb = (case rgb of (r, g, b) \<Rightarrow>
     (stepChannel isDark r, stepChannel isDark g, stepChannel isDark b))"

function repairLoop ::
  "bool \<Rightarrow> string \<Rightarrow> nat \<Rightarrow> jsnum \<Rightarrow> channel \<times> channel \<times> channel \<Rightarrow> string option" where
  "repairLoop isDark bg step ratio rgb =
     (if step < 20 \<and> num_lt ratio 4.5 then
        (let rgb' = stepRGB isDark rgb;
             fixed = fixedHex rgb';
             ratio' = contrastRatio fixed bg
         in if num_ge ratio' 4.5 then Some fixed
            else repairLoop isDark bg (step + 1) ratio' rgb')
      else None)"
  by pat_completeness auto
termination
  by (relation "measure (\<lambda>(isDark, bg, step, ratio, rgb). 20 - step)") auto

declare repairLoop.simps [simp del]

definition channelsOf :: "string \<Rightarrow> channel \<times> channel \<times> channel" where
  "channelsOf current = (let hex = replaceHash current in
     (parseInt16 (slice 0 2 hex), parseInt16 (slice 2 4 hex), parseInt16 (slice 4 6 hex)))"

definition fixEntry :: "string list \<Rightarrow> string \<Rightarrow> nat \<Rightarrow> (nat \<rightharpoonup> string) \<Rightarrow> (nat \<rightharpoonup> string)" where
  \<comment> \<open>the body of the \<^verbatim>\<open>forEach\<close> callback at index \<open>i < length swatches\<close>;
      \<open>None\<close> from the loop means that no assignment to \<^verbatim>\<open>next[i]\<close> happened\<close>
  "fixEntry swatches bg i next =
     (if i < 3 then next
      else
        (let current = (case next i of Some v \<Rightarrow> v | None \<Rightarrow> swatches ! i);
             ratio = contrastRatio current bg
         in if num_ge ratio 4.5 then next
            else
              (let rgb = channelsOf current;
                   isDark = num_gt (luminance bg) 0.5
               in case repairLoop isDark bg 0 ratio rgb of
                    Some fixed \<Rightarrow> next(i \<mapsto> fixed)
                  | None \<Rightarrow> next)))"

definition background :: "string list \<Rightarrow> (nat \<rightharpoonup> string) \<Rightarrow> string option" where
  \<comment> \<open>\<^verbatim>\<open>customSwatches[0] ?? swatches[0]\<close>; \<^verbatim>\<open>undefined\<close> exactly when both are missing\<close>
  "background swatches customSwatches =
     (case customSwatches 0 of
        Some v \<Rightarrow> Some v
      | None \<Rightarrow> (case swatches of [] \<Rightarrow> None | s # _ \<Rightarrow> Some s))"

definition fixTextContrast :: "string list \<Rightarrow> (nat \<rightharpoonup> string) \<Rightarrow> (nat \<rightharpoonup> string)" where
  \<comment> \<open>without a background \<open>swatches\<close> is empty and \<^verbatim>\<open>forEach\<close> visits nothing\<close>
  "fixTextContrast swatches customSwatches =
     (case background swatches customSwatches of
        None \<Rightarrow> customSwatches
      | Some bg \<Rightarrow> fold (fixEntry swatches bg) [0..<length swatches] customSwatches)"

text \<open>
  The repair as the specification words it: the direction is fixed once, the colour is
  stepped up to 20 times, and the first stepped colour whose ratio against the background
  reaches 4.5 is the result; there is none when no step of the budget reaches it.
\<close>

definition specRepair :: "bool \<Rightarrow> string \<Rightarrow> channel \<times> channel \<times> channel \<Rightarrow> string option" where
  "specRepair lighter bg rgb =
     find (\<lambda>fixed. num_ge (contrastRatio fixed bg) 4.5)
       (map (\<lambda>k. fixedHex ((stepRGB lighter ^^ k) rgb)) [1..<21])"

text \<open>
  The colours of the specification. A colour is three channels between 0 and 255, written
  \<^verbatim>\<open>#rrggbb\<close> with two lower-case hex digits per channel; a string stands for a colour
  when, its letters \<^verbatim>\<open>A\<close> to \<^verbatim>\<open>F\<close> put in lower case, it is that colour's hex string. One
  step moves every channel by 12 towards 255 (lighter) or towards 0 (darker) and stops
  there. These definitions follow the wording of the specification; \<open>channelsOf\<close>,
  \<open>fixedHex\<close> and \<open>stepRGB\<close> above follow the code.
\<close>

definition inGamut :: "int \<times> int \<times> int \<Rightarrow> bool" where
  "inGamut rgb = (case rgb of (r, g, b) \<Rightarrow>
     0 \<le> r \<and> r \<le> 255 \<and> 0 \<le> g \<and> g \<le> 255 \<and> 0 \<le> b \<and> b \<le> 255)"

definition specHexPair :: "int \<Rightarrow> string" where
  "specHexPair v = [''0123456789abcdef'' ! (nat v div 16), ''0123456789abcdef'' ! (nat v mod 16)]"

definition specHex :: "int \<times> int \<times> int \<Rightarrow> string" where
  "specHex rgb = (case rgb of (r, g, b) \<Rightarrow>
     CHR ''#'' # specHexPair r @ specHexPair g @ specHexPair b)"

definition lowerHex :: "char \<Rightarrow> char" where
  "lowerHex c = (case map_of (zip ''ABCDEF'' ''abcdef'') c of Some d \<Rightarrow> d | None \<Rightarrow> c)"

definition specStep :: "bool \<Rightarrow> int \<times> int \<times> int \<Rightarrow> int \<times> int \<times> int" where
  "specStep lighter rgb = (case rgb of (r, g, b) \<Rightarrow>
     if lighter then (min 255 (r + 12), min 255 (g + 12), min 255 (b + 12))
     else (max 0 (r - 12), max 0 (g - 12), max 0 (b - 12)))"

section \<open>CMYK report\<close>

text \<open>
  \<^verbatim>\<open>
  type ExportColor = { name: string; value: string };

  function exportToCMYK(colors: ExportColor[]) {
    const lines = ["/* CMYK Color Palette */\n"];
    colors.forEach((c) => {
      const hex = c.value.replace("#", "").slice(0, 6);
      if (hex.length !== 6) { lines.push(`${c.name}: cmyk(0%, 0%, 0%, 100%)`); return; }
      const r = parseInt(hex.slice(0,2),16)/255, g = parseInt(hex.slice(2,4),16)/255, b = parseInt(hex.slice(4,6),16)/255;
      const k = 1 - Math.max(r,g,b);
      const cy = k<1 ? (1-r-k)/(1-k) : 0;
      const ma = k<1 ? (1-g-k)/(1-k) : 0;
      const ye = k<1 ? (1-b-k)/(1-k) : 0;
      lines.push(`${c.name}: cmyk(${(cy*100).toFixed(1)}%, ${(ma*100).toFixed(1)}%, ${(ye*100).toFixed(1)}%, ${(k*100).toFixed(1)}%)`);
    });
    return lines.join("\n");
  }
  \<close>
  None of the operations used throws on a string, so the model has no error value.
  \<^verbatim>\<open>Math.max\<close> is NaN as soon as one argument is; then \<^verbatim>\<open>k < 1\<close> is false and the
  three colour components are 0. \<^verbatim>\<open>toFixed(1)\<close> is modelled for magnitudes below
  \<open>10\<^sup>2\<^sup>1\<close>, where it prints digits; the percentages here stay far below that.
\<close>

record ExportColor =
  name :: string
  "value" :: string




text \<open>
  The digits of the report depend on the rounding of each operation: \<^verbatim>\<open>(cy*100).toFixed(1)\<close>
  prints the decimal nearest to the double it is given, and a quotient such as 1/16
  times 100 is a double just below 6.25. So the arithmetic of this function is IEEE
  arithmetic: \<open>fl\<close> rounds a real to the nearest double, ties to the even significand
  (53 bits, exponent at least -1022; no overflow occurs at these magnitudes), and every
  division, subtraction and multiplication of the source is followed by \<open>fl\<close>.
\<close>

definition roundEven :: "real \<Rightarrow> int" where
  "roundEven y = (let f = \<lfloor>y\<rfloor>; d = y - of_int f in
     if d < 1 / 2 then f else if 1 / 2 < d then f + 1 else if even f then f else f + 1)"

definition fl :: "real \<Rightarrow> real" where
  "fl x = (if x = 0 then 0
     else (let e = max (- 1022) \<lfloor>log 2 \<bar>x\<bar>\<rfloor>
           in of_int (roundEven (x / 2 powr of_int (e - 52))) * 2 powr of_int (e - 52)))"

definition channelOver255 :: "channel \<Rightarrow> jsnum" where
  \<comment> \<open>\<^verbatim>\<open>parseInt(..., 16) / 255\<close>\<close>
  "channelOver255 v = (case v of None \<Rightarrow> None | Some n \<Rightarrow> Some (fl (real_of_int n / 255)))"

definition cmykOf :: "jsnum \<Rightarrow> jsnum \<Rightarrow> jsnum \<Rightarrow> jsnum \<times> jsnum \<times> jsnum \<times> jsnum" where
  "cmykOf r g b = (case (r, g, b) of
       (Some r, Some g, Some b) \<Rightarrow>
         (let k = fl (1 - max r (max g b));
              cy = (if k < 1 then fl (fl (fl (1 - r) - k) / fl (1 - k)) else 0);
              ma = (if k < 1 then fl (fl (fl (1 - g) - k) / fl (1 - k)) else 0);
              ye = (if k < 1 then fl (fl (fl (1 - b) - k) / fl (1 - k)) else 0)
          in (Some cy, Some ma, Some ye, Some k))
     | _ \<Rightarrow> (Some 0, Some 0, Some 0, None))"

definition times100 :: "jsnum \<Rightarrow> jsnum" where
  "times100 v = map_option (\<lambda>x. fl (x * 100)) v"




section \<open>OKLCH report\<close>

text \<open>
  \<^verbatim>\<open>
  function hexToOklch(hex: string) {
    hex = hex.replace("#","").slice(0,6);
    const r=toLinear(parseInt(hex.slice(0,2),16)), g=toLinear(parseInt(hex.slice(2,4),16)), b=toLinear(parseInt(hex.slice(4,6),16));
    const l_=Math.cbrt(0.4122214708*r+0.5363325363*g+0.0514459929*b);
    const m_=Math.cbrt(0.2119034982*r+0.6806995451*g+0.1073969566*b);
    const s_=Math.cbrt(0.0883024619*r+0.2817188376*g+0.6299787005*b);
    const L=0.2104542553*l_+0.793617785*m_-0.0040720468*s_;
    const a=1.9779984951*l_-2.428592205*m_+0.4505937099*s_;
    const bOk=0.0259040371*l_+0.7827717662*m_-0.808675766*s_;
    const C=Math.sqrt(a*a+bOk*bOk);
    let H=Math.atan2(bOk,a)*(180/Math.PI); if(H<0) H+=360;
    return { l:L, c:C, h:H };
  }
  \<close>
  \<^verbatim>\<open>Math.cbrt\<close> is the real cube root \<open>root 3\<close>, \<^verbatim>\<open>Math.atan2(y, x)\<close> the angle of the
  point \<open>(x, y)\<close> in \<open>(-\<pi>, \<pi>]\<close>, 0 at the origin. Each of \<^verbatim>\<open>l_\<close>, \<^verbatim>\<open>m_\<close>, \<^verbatim>\<open>s_\<close> mixes
  all three channels, so one NaN channel makes the three results NaN. The fields
  \<^verbatim>\<open>l\<close>, \<^verbatim>\<open>c\<close>, \<^verbatim>\<open>h\<close> of the result are \<open>lOk\<close>, \<open>cOk\<close>, \<open>hOk\<close>, and \<^verbatim>\<open>l_\<close>, \<^verbatim>\<open>m_\<close>,
  \<^verbatim>\<open>s_\<close> are \<open>l'\<close>, \<open>m'\<close>, \<open>s'\<close>.
\<close>

definition atan2 :: "real \<Rightarrow> real \<Rightarrow> real" where
  "atan2 y x =
     (if 0 < x then arctan (y / x)
      else if x < 0 then (if 0 \<le> y then arctan (y / x) + pi else arctan (y / x) - pi)
      else if 0 < y then pi / 2
      else if y < 0 then - (pi / 2)
      else 0)"

record Oklch =
  lOk :: jsnum
  cOk :: jsnum
  hOk :: jsnum

definition hexToOklch :: "string \<Rightarrow> Oklch" where
  "hexToOklch hex0 =
     (let hex = slice 0 6 (replaceHash hex0) in
      case (parseInt16 (slice 0 2 hex), parseInt16 (slice 2 4 hex), parseInt16 (slice 4 6 hex)) of
        (Some ri, Some gi, Some bi) \<Rightarrow>
          (let r = toLinear (real_of_int ri); g = toLinear (real_of_int gi);
               b = toLinear (real_of_int bi);
               l' = root 3 (0.4122214708 * r + 0.5363325363 * g + 0.0514459929 * b);
               m' = root 3 (0.2119034982 * r + 0.6806995451 * g + 0.1073969566 * b);
               s' = root 3 (0.0883024619 * r + 0.2817188376 * g + 0.6299787005 * b);
               L = 0.2104542553 * l' + 0.793617785 * m' - 0.0040720468 * s';
               a = 1.9779984951 * l' - 2.428592205 * m' + 0.4505937099 * s';
               bOk = 0.0259040371 * l' + 0.7827717662 * m' - 0.808675766 * s';
               C = sqrt (a * a + bOk * bOk);
               H0 = atan2 bOk a * (180 / pi);
               H = (if H0 < 0 then H0 + 360 else H0)
           in \<lparr>lOk = Some L, cOk = Some C, hOk = Some H\<rparr>)
      | _ \<Rightarrow> \<lparr>lOk = None, cOk = None, hOk = None\<rparr>)"

section \<open>Palette import\<close>

text \<open>
  \<^verbatim>\<open>
  function applyImportText(raw: string) {
    const hexes = raw.match(/#[0-9a-fA-F]{6}/gi);
    if (!hexes || hexes.length < 2) return;
    const next: Record<number,string> = {};
    hexes.slice(0,6).forEach((h,i) => { next[i] = h; });
    setCustomSwatches(next);
    setAutoPlay(false);
    setEditingHex(hexes[2] ?? hexes[0]);
    setImportOpen(false);
    setImportMode("menu");
    setImportText("");
  }
  \<close>
  The component state the function writes is a record; the function returns the state
  after the setters. A global match scans from the left and resumes after each match;
  without a match \<^verbatim>\<open>match\<close> returns \<^verbatim>\<open>null\<close>, here the empty list.
\<close>

datatype importModeT = Menu | Clipboard

record demoState =
  customSwatchesState :: "nat \<rightharpoonup> string"
  autoPlay :: bool
  editingHex :: string
  importOpen :: bool
  importMode :: importModeT
  importText :: string

fun matchHexColors :: "string \<Rightarrow> string list" where
  "matchHexColors [] = []"
| "matchHexColors (ch # cs) =
     (if ch = CHR ''#'' \<and> 6 \<le> length cs \<and> list_all isHexDigit (take 6 cs)
      then (ch # take 6 cs) # matchHexColors (drop 6 cs)
      else matchHexColors cs)"

definition assignRoles :: "string list \<Rightarrow> (nat \<rightharpoonup> string)" where
  \<comment> \<open>\<^verbatim>\<open>hs.forEach((h,i) => { next[i] = h; })\<close> from the empty record\<close>
  "assignRoles hs = fold (\<lambda>(i, h) next. next(i \<mapsto> h)) (enumerate 0 hs) Map.empty"

definition applyImportText :: "string \<Rightarrow> demoState \<Rightarrow> demoState" where
  "applyImportText raw st =
     (let hexes = matchHexColors raw in
      if hexes = [] \<or> length hexes < 2 then st
      else st\<lparr>customSwatchesState := assignRoles (take 6 hexes),
               autoPlay := False,
               editingHex := (if 2 < length hexes then hexes ! 2 else hexes ! 0),
               importOpen := False,
               importMode := Menu,
               importText := []\<rparr>)"

text \<open>A component state for the examples of the import.\<close>

definition st0 :: demoState where
  "st0 = \<lparr>customSwatchesState = [5 \<mapsto> ''#22C55E''], autoPlay = True, editingHex = ''#818CF8'',
          importOpen = True, importMode = Clipboard, importText = ''bg #0B1220, fg #eaf0ff.''\<rparr>"

section \<open>Internal round-trip format\<close>

text \<open>
  \<^verbatim>\<open>
  function exportToPaletteLive(colors: ExportColor[]) {
    const overrides: Record<string,string> = {};
    colors.forEach((c) => { overrides[c.name] = c.value; });
    return JSON.stringify({ version: "1.0", format: "palettelive", overrides }, null, 2);
  }
  \<close>
  \<^verbatim>\<open>overrides\<close> is an ordinary object created by a literal, so it inherits from
  \<^verbatim>\<open>Object.prototype\<close>. Its own properties are an association list in creation order.
  An assignment \<^verbatim>\<open>overrides[k] = v\<close> updates the property \<open>k\<close> in place when it exists
  and appends it otherwise, except for the key \<^verbatim>\<open>__proto__\<close>: that key is the accessor of
  \<^verbatim>\<open>Object.prototype\<close>, whose setter returns without effect when the value is a string,
  so no own property is created (ECMA-262, \<^verbatim>\<open>set Object.prototype.__proto__\<close>, step 2).
  The own keys are enumerated with the array indices first, in ascending order, then the
  other keys in creation order (\<^verbatim>\<open>OrdinaryOwnPropertyKeys\<close>).
\<close>

type_synonym jsobj = "(string \<times> string) list"

definition objSet :: "string \<Rightarrow> string \<Rightarrow> jsobj \<Rightarrow> jsobj" where
  "objSet k v obj = (if k = ''__proto__'' then obj else AList.update k v obj)"

definition isDecDigit :: "char \<Rightarrow> bool" where
  "isDecDigit ch = (48 \<le> (of_char ch :: nat) \<and> (of_char ch :: nat) \<le> 57)"

definition decValue :: "string \<Rightarrow> nat" where
  "decValue ds = foldl (\<lambda>acc ch. 10 * acc + ((of_char ch :: nat) - 48)) 0 ds"

definition isArrayIndex :: "string \<Rightarrow> bool" where
  "isArrayIndex k = (k \<noteq> [] \<and> list_all isDecDigit k \<and> (k = ''0'' \<or> hd k \<noteq> CHR ''0'')
     \<and> decValue k < 4294967295)"

definition ownEntries :: "jsobj \<Rightarrow> jsobj" where
  "ownEntries obj =
     sort_key (\<lambda>p. decValue (fst p)) (filter (\<lambda>p. isArrayIndex (fst p)) obj)
     @ filter (\<lambda>p. \<not> isArrayIndex (fst p)) obj"

text \<open>
  \<^verbatim>\<open>JSON.stringify(value, null, 2)\<close> and \<^verbatim>\<open>JSON.parse\<close> are functions of the
  platform. They are written out here from ECMA-262 for the values that occur, strings
  and objects: \<open>serialize\<close> is \<^verbatim>\<open>SerializeJSONProperty\<close> with the gap of two spaces and
  \<open>quoteJSON\<close> is \<^verbatim>\<open>QuoteJSONString\<close>; \<open>JSON_parse\<close> follows the JSON grammar for
  strings and objects and is \<open>None\<close> where \<^verbatim>\<open>JSON.parse\<close> throws or the text holds
  another kind of value. The parser's recursion is bounded by a counter that starts at
  the length of the text.
\<close>

datatype json = JString string | JObject "(string \<times> json) list"

definition hex4 :: "nat \<Rightarrow> string" where
  "hex4 n = [hexDigitChar (n div 4096 mod 16), hexDigitChar (n div 256 mod 16),
             hexDigitChar (n div 16 mod 16), hexDigitChar (n mod 16)]"

definition escapeChar :: "char \<Rightarrow> string" where
  "escapeChar ch = (let n = (of_char ch :: nat) in
     if n = 8 then [CHR 0x5C, CHR ''b'']
     else if n = 9 then [CHR 0x5C, CHR ''t'']
     else if n = 10 then [CHR 0x5C, CHR ''n'']
     else if n = 12 then [CHR 0x5C, CHR ''f'']
     else if n = 13 then [CHR 0x5C, CHR ''r'']
     else if n = 34 then [CHR 0x5C, CHR 0x22]
     else if n = 92 then [CHR 0x5C, CHR 0x5C]
     else if n < 32 then CHR 0x5C # CHR ''u'' # hex4 n
     else [ch])"

definition quoteJSON :: "string \<Rightarrow> string" where
  "quoteJSON s = CHR 0x22 # concat (map escapeChar s) @ [CHR 0x22]"

fun joinWith :: "string \<Rightarrow> string list \<Rightarrow> string" where
  "joinWith sep [] = []"
| "joinWith sep [x] = x"
| "joinWith sep (x # xs) = x @ sep @ joinWith sep xs"

fun serialize :: "string \<Rightarrow> json \<Rightarrow> string" where
  "serialize indent (JString s) = quoteJSON s"
| "serialize indent (JObject ps) =
     (if ps = [] then ''{}''
      else ''{'' @ [CHR 0x0A] @ (indent @ ''  '')
        @ joinWith ('','' @ [CHR 0x0A] @ (indent @ ''  ''))
            (map (\<lambda>p. quoteJSON (fst p) @ '': '' @ serialize (indent @ ''  '') (snd p)) ps)
        @ [CHR 0x0A] @ indent @ ''}'')"

definition overridesOf :: "ExportColor list \<Rightarrow> jsobj" where
  "overridesOf colors = fold (\<lambda>c obj. objSet (name c) (value c) obj) colors []"

definition exportToPaletteLive :: "ExportColor list \<Rightarrow> string" where
  "exportToPaletteLive colors =
     (let overrides = overridesOf colors
      in serialize [] (JObject
           [(''version'', JString ''1.0''),
            (''format'', JString ''palettelive''),
            (''overrides'', JObject (map (\<lambda>p. (fst p, JString (snd p))) (ownEntries overrides)))]))"

definition isJsonWs :: "char \<Rightarrow> bool" where
  "isJsonWs ch = ((of_char ch :: nat) \<in> {9, 10, 13, 32})"

definition unescape :: "char \<Rightarrow> char option" where
  "unescape e =
     (if e = CHR 0x22 then Some (CHR 0x22)
      else if e = CHR 0x5C then Some (CHR 0x5C)
      else if e = CHR ''/'' then Some (CHR ''/'')
      else if e = CHR ''b'' then Some (CHR 0x08)
      else if e = CHR ''f'' then Some (CHR 0x0C)
      else if e = CHR ''n'' then Some (CHR 0x0A)
      else if e = CHR ''r'' then Some (CHR 0x0D)
      else if e = CHR ''t'' then Some (CHR 0x09)
      else None)"

definition consResult :: "char \<Rightarrow> (string \<times> string) option \<Rightarrow> (string \<times> string) option" where
  "consResult ch r = (case r of None \<Rightarrow> None | Some (s, rest) \<Rightarrow> Some (ch # s, rest))"

fun parseChars :: "string \<Rightarrow> (string \<times> string) option" where
  "parseChars [] = None"
| "parseChars (ch # cs) =
     (if ch = CHR 0x22 then Some ([], cs)
      else if ch = CHR 0x5C then
        (case cs of
           [] \<Rightarrow> None
         | e # es \<Rightarrow>
             if e = CHR ''u'' then
               (if 4 \<le> length es \<and> list_all isHexDigit (take 4 es) \<and> digitsValue (take 4 es) < 256
                then consResult (char_of (digitsValue (take 4 es))) (parseChars (drop 4 es))
                else None)
             else (case unescape e of
                     None \<Rightarrow> None
                   | Some u \<Rightarrow> consResult u (parseChars es)))
      else if (of_char ch :: nat) < 32 then None
      else consResult ch (parseChars cs))"

fun parseValue :: "nat \<Rightarrow> string \<Rightarrow> (json \<times> string) option"
  and parseMembers :: "nat \<Rightarrow> (string \<times> json) list \<Rightarrow> string \<Rightarrow> (json \<times> string) option" where
  "parseValue 0 s = None"
| "parseValue (Suc n) s =
     (case dropWhile isJsonWs s of
        [] \<Rightarrow> None
      | ch # cs \<Rightarrow>
          if ch = CHR 0x22 then
            (case parseChars cs of None \<Rightarrow> None | Some (str, rest) \<Rightarrow> Some (JString str, rest))
          else if ch = CHR ''{'' then
            (case dropWhile isJsonWs cs of
               [] \<Rightarrow> None
             | d # ds \<Rightarrow> if d = CHR ''}'' then Some (JObject [], ds) else parseMembers n [] cs)
          else None)"
| "parseMembers 0 acc s = None"
| "parseMembers (Suc n) acc s =
     (case dropWhile isJsonWs s of
        [] \<Rightarrow> None
      | q # cs \<Rightarrow>
          if q \<noteq> CHR 0x22 then None
          else
            (case parseChars cs of
               None \<Rightarrow> None
             | Some (k, r1) \<Rightarrow>
                 (case dropWhile isJsonWs r1 of
                    [] \<Rightarrow> None
                  | colon # r2 \<Rightarrow>
                      if colon \<noteq> CHR '':'' then None
                      else
                        (case parseValue n r2 of
                           None \<Rightarrow> None
                         | Some (v, r3) \<Rightarrow>
                             (case dropWhile isJsonWs r3 of
                                [] \<Rightarrow> None
                              | sep # r4 \<Rightarrow>
                                  if sep = CHR '','' then parseMembers n (acc @ [(k, v)]) r4
                                  else if sep = CHR ''}'' then Some (JObject (acc @ [(k, v)]), r4)
                                  else None)))))"

definition JSON_parse :: "string \<Rightarrow> json option" where
  "JSON_parse s = (case parseValue (length s) s of
       None \<Rightarrow> None
     | Some (v, rest) \<Rightarrow> if dropWhile isJsonWs rest = [] then Some v else None)"

text \<open>
  Auxiliary notions of the round-trip proof: the fuel a value needs, indentation strings,
  and the text of one object member.
\<close>

fun cost :: "json \<Rightarrow> nat" where
  "cost (JString s) = 1"
| "cost (JObject ps) = 1 + sum_list (map (\<lambda>p. 1 + cost (snd p)) ps)"

definition spaces :: "string \<Rightarrow> bool" where
  "spaces w = list_all (\<lambda>ch. ch = CHR '' '') w"

definition member :: "string \<Rightarrow> string \<times> json \<Rightarrow> string" where
  "member ind p = quoteJSON (fst p) @ '': '' @ serialize ind (snd p)"

text \<open>
  Invariants of the repair loop, used in the proofs: a channel parsed from at most two
  characters, or stepped from one, is NaN or lies between -15 and 255.
\<close>

definition chanOK :: "channel \<Rightarrow> bool" where
  "chanOK v = (case v of None \<Rightarrow> True | Some n \<Rightarrow> - 15 \<le> n \<and> n \<le> 255)"

definition rgbOK :: "channel \<times> channel \<times> channel \<Rightarrow> bool" where
  "rgbOK rgb = (case rgb of (r, g, b) \<Rightarrow> chanOK r \<and> chanOK g \<and> chanOK b)"

definition hasNaN :: "channel \<times> channel \<times> channel \<Rightarrow> bool" where
  "hasNaN rgb = (case rgb of (r, g, b) \<Rightarrow> r = None \<or> g = None \<or> b = None)"

section \<open>Parsing facts\<close>

lemma hexDigitValue_less: "hexDigitValue c = Some d \<Longrightarrow> d < 16"
  by (auto simp: hexDigitValue_def Let_def split: if_splits)

lemma isHexDigit_not_space: "isHexDigit c \<Longrightarrow> \<not> isWhiteSpace c"
  by (auto simp: isHexDigit_def hexDigitValue_def isWhiteSpace_def Let_def split: if_splits)

lemma isHexDigit_not_special:
  "isHexDigit c \<Longrightarrow> c \<noteq> CHR ''-'' \<and> c \<noteq> CHR ''+'' \<and> c \<noteq> CHR ''x'' \<and> c \<noteq> CHR ''X''"
  by (auto simp: isHexDigit_def hexDigitValue_def Let_def)

lemma parseInt16_two_digits:
  assumes "isHexDigit a" "isHexDigit b"
  shows "\<exists>n. parseInt16 [a, b] = Some (int n) \<and> n \<le> 255"
proof -
  obtain x y where x: "hexDigitValue a = Some x" and y: "hexDigitValue b = Some y"
    using assms by (auto simp: isHexDigit_def)
  have "x < 16" "y < 16" using x y hexDigitValue_less by blast+
  moreover have "parseInt16 [a, b] = Some (int (16 * x + y))"
    using assms x y isHexDigit_not_space[of a] isHexDigit_not_special[of a]
      isHexDigit_not_special[of b]
    by (simp add: parseInt16_def stripSign_def stripHexPrefix_def digitsValue_def)
  ultimately show ?thesis
    by (intro exI[of _ "16 * x + y"]) simp
qed

lemma wfHex_shape:
  assumes "wfHex s"
  obtains a b c d e f where "s = [CHR ''#'', a, b, c, d, e, f]"
    "isHexDigit a" "isHexDigit b" "isHexDigit c" "isHexDigit d" "isHexDigit e" "isHexDigit f"
proof -
  from assms obtain cs where s: "s = CHR ''#'' # cs" and l: "length cs = 6"
    and h: "list_all isHexDigit cs"
    by (auto simp: wfHex_def split: list.splits)
  from l obtain a b c d e f where cs: "cs = [a, b, c, d, e, f]"
    by (auto simp: length_Suc_conv eval_nat_numeral)
  show ?thesis using that[of a b c d e f] s cs h by simp
qed

lemmas parse_eval = slice_def parseInt16_def stripSign_def stripHexPrefix_def digitsValue_def
  isWhiteSpace_def isHexDigit_def hexDigitValue_def

section \<open>Properties of luminance and contrast\<close>

lemma gammaWCAG_range: "0 \<le> c \<Longrightarrow> c \<le> 1 \<Longrightarrow> 0 \<le> gammaWCAG c \<and> gammaWCAG c \<le> 1"
  by (auto simp: gammaWCAG_def intro!: powr_le1)

lemma luminance_wfHex:
  assumes "wfHex s"
  shows "\<exists>L. luminance s = Some L \<and> 0 \<le> L \<and> L \<le> 1"
proof -
  from assms obtain a b c d e f where s: "s = [CHR ''#'', a, b, c, d, e, f]"
    and h: "isHexDigit a" "isHexDigit b" "isHexDigit c" "isHexDigit d" "isHexDigit e" "isHexDigit f"
    by (rule wfHex_shape)
  obtain r where r: "parseInt16 [a, b] = Some (int r)" "r \<le> 255"
    using parseInt16_two_digits[OF h(1,2)] by blast
  obtain g where g: "parseInt16 [c, d] = Some (int g)" "g \<le> 255"
    using parseInt16_two_digits[OF h(3,4)] by blast
  obtain bl where bl: "parseInt16 [e, f] = Some (int bl)" "bl \<le> 255"
    using parseInt16_two_digits[OF h(5,6)] by blast
  define R where "R = gammaWCAG (real r / 255)"
  define G where "G = gammaWCAG (real g / 255)"
  define B where "B = gammaWCAG (real bl / 255)"
  have R: "0 \<le> R \<and> R \<le> 1" unfolding R_def using r(2) by (intro gammaWCAG_range) auto
  have G: "0 \<le> G \<and> G \<le> 1" unfolding G_def using g(2) by (intro gammaWCAG_range) auto
  have B: "0 \<le> B \<and> B \<le> 1" unfolding B_def using bl(2) by (intro gammaWCAG_range) auto
  have "luminance s = Some (0.2126 * R + 0.7152 * G + 0.0722 * B)"
    using r(1) g(1) bl(1) by (simp add: luminance_def slice_def s R_def G_def B_def)
  moreover have "0 \<le> 0.2126 * R + 0.7152 * G + 0.0722 * B" using R G B by simp
  moreover have "0.2126 * R + 0.7152 * G + 0.0722 * B \<le> 1" using R G B by simp
  ultimately show ?thesis by blast
qed

lemma powr_12_5_pow5: "0 < x \<Longrightarrow> (x powr (12/5)) ^ 5 = x ^ 12" for x :: real
  by (simp add: powr_powr flip: powr_numeral)

text \<open>
  C3. For well-formed colours \<open>a\<close> and \<open>b\<close> the contrast ratio is symmetric, the ratio of a
  colour with itself is 1, and the ratio is \<open>(L_max + 0.05) / (L_min + 0.05)\<close> over the two
  luminances, a value between 1 and 21.
\<close>

theorem contrastRatio_symmetric_identity_range:
  assumes "wfHex a" "wfHex b"
  shows "contrastRatio a b = contrastRatio b a \<and> contrastRatio a a = Some 1 \<and>
    (\<exists>la lb. luminance a = Some la \<and> luminance b = Some lb \<and>
       contrastRatio a b = Some ((max la lb + 0.05) / (min la lb + 0.05)) \<and>
       1 \<le> (max la lb + 0.05) / (min la lb + 0.05) \<and>
       (max la lb + 0.05) / (min la lb + 0.05) \<le> 21)"
proof -
  obtain la where la: "luminance a = Some la" "0 \<le> la" "la \<le> 1"
    using luminance_wfHex[OF assms(1)] by blast
  obtain lb where lb: "luminance b = Some lb" "0 \<le> lb" "lb \<le> 1"
    using luminance_wfHex[OF assms(2)] by blast
  have sym: "contrastRatio a b = contrastRatio b a"
    using la(1) lb(1) by (auto simp: contrastRatio_def Let_def)
  have idn: "contrastRatio a a = Some 1"
    using la by (simp add: contrastRatio_def Let_def)
  have form: "contrastRatio a b = Some ((max la lb + 0.05) / (min la lb + 0.05))"
    using la(1) lb(1) by (auto simp: contrastRatio_def Let_def max_def min_def)
  have lo: "1 \<le> (max la lb + 0.05) / (min la lb + 0.05)"
    using la lb by (simp add: max_def min_def)
  have "max la lb + 0.05 \<le> 1.05" using la lb by simp
  moreover have "0.05 \<le> min la lb + 0.05" using la lb by simp
  ultimately have "(max la lb + 0.05) / (min la lb + 0.05) \<le> 1.05 / 0.05"
    by (intro frac_le) auto
  then have hi: "(max la lb + 0.05) / (min la lb + 0.05) \<le> 21" by simp
  show ?thesis using sym idn form lo hi la(1) lb(1) by blast
qed

theorem contrastRatio_symmetric_identity_range_witness:
  "wfHex ''#000000'' \<and> wfHex ''#FFFFFF'' \<and>
   contrastRatio ''#000000'' ''#FFFFFF'' = contrastRatio ''#FFFFFF'' ''#000000'' \<and>
   contrastRatio ''#000000'' ''#000000'' = Some 1 \<and>
   contrastRatio ''#000000'' ''#FFFFFF'' = Some 21"
proof -
  have a: "wfHex ''#000000''" by (simp add: wfHex_def isHexDigit_def hexDigitValue_def)
  have b: "wfHex ''#FFFFFF''" by (simp add: wfHex_def isHexDigit_def hexDigitValue_def)
  have "contrastRatio ''#000000'' ''#FFFFFF'' = Some 21"
    by (simp add: contrastRatio_def luminance_def gammaWCAG_def parse_eval)
  then show ?thesis
    using contrastRatio_symmetric_identity_range[OF a b] a b by simp
qed

text \<open>
  C4. Black has luminance 0 and white has luminance 1. The luminance of \<^verbatim>\<open>#rrggbb\<close> is
  \<open>0.2126 R + 0.7152 G + 0.0722 B\<close> over the three parsed channels, each divided by 255 and
  expanded by the WCAG branch function with threshold 0.03928. That threshold is not the
  0.04045 of \<open>toLinear\<close>: at the channel value 0.04, which lies between the two, the WCAG
  function takes the power branch, \<open>toLinear\<close> the linear one, and the results differ.
\<close>

theorem luminance_extremes_and_wcag_threshold:
  "luminance ''#000000'' = Some 0 \<and> luminance ''#FFFFFF'' = Some 1 \<and>
   luminance [CHR ''#'', r1, r2, g1, g2, b1, b2] =
     (case (parseInt16 [r1, r2], parseInt16 [g1, g2], parseInt16 [b1, b2]) of
        (Some r, Some g, Some b) \<Rightarrow>
          Some (0.2126 * gammaWCAG (real_of_int r / 255)
              + 0.7152 * gammaWCAG (real_of_int g / 255)
              + 0.0722 * gammaWCAG (real_of_int b / 255))
      | _ \<Rightarrow> None) \<and>
   gammaWCAG c = (if c \<le> 0.03928 then c / 12.92 else ((c + 0.055) / 1.055) powr 2.4) \<and>
   toLinear (255 * c) = (if c \<le> 0.04045 then c / 12.92 else ((c + 0.055) / 1.055) powr 2.4) \<and>
   gammaWCAG 0.04 = (0.095 / 1.055) powr 2.4 \<and> toLinear (255 * 0.04) = 0.04 / 12.92 \<and>
   gammaWCAG 0.04 \<noteq> toLinear (255 * 0.04)"
proof -
  have black: "luminance ''#000000'' = Some 0"
    by (simp add: luminance_def gammaWCAG_def parse_eval)
  have white: "luminance ''#FFFFFF'' = Some 1"
    by (simp add: luminance_def gammaWCAG_def parse_eval)
  have form: "luminance [CHR ''#'', r1, r2, g1, g2, b1, b2] =
     (case (parseInt16 [r1, r2], parseInt16 [g1, g2], parseInt16 [b1, b2]) of
        (Some r, Some g, Some b) \<Rightarrow>
          Some (0.2126 * gammaWCAG (real_of_int r / 255)
              + 0.7152 * gammaWCAG (real_of_int g / 255)
              + 0.0722 * gammaWCAG (real_of_int b / 255))
      | _ \<Rightarrow> None)"
    by (simp add: luminance_def slice_def)
  have gam: "gammaWCAG c = (if c \<le> 0.03928 then c / 12.92 else ((c + 0.055) / 1.055) powr 2.4)"
    by (simp add: gammaWCAG_def)
  have lin: "toLinear (255 * c) = (if c \<le> 0.04045 then c / 12.92 else ((c + 0.055) / 1.055) powr 2.4)"
    by (simp add: toLinear_def)
  have g: "gammaWCAG 0.04 = (0.095 / 1.055) powr 2.4" by (simp add: gammaWCAG_def)
  have t: "toLinear (255 * 0.04) = 0.04 / 12.92" by (simp add: toLinear_def)
  have ne: "gammaWCAG 0.04 \<noteq> toLinear (255 * 0.04)"
  proof
    assume eq: "gammaWCAG 0.04 = toLinear (255 * 0.04)"
    have "(19/211::real) powr (12/5) = 1/323" using eq unfolding g t by simp
    then have "((19/211::real) powr (12/5)) ^ 5 = (1/323) ^ 5" by (rule arg_cong)
    then have "(19/211::real) ^ 12 = (1/323) ^ 5" by (simp add: powr_12_5_pow5)
    then show False by (simp add: divide_simps)
  qed
  show ?thesis using black white form gam lin g t ne by blast
qed

section \<open>Channels: parsing, printing and the range invariant\<close>

lemma digitsValue_Nil: "digitsValue [] = 0" by (simp add: digitsValue_def)
lemma digitsValue_one: "digitsValue [a] \<le> 15"
  using hexDigitValue_less[of a] by (auto simp: digitsValue_def split: option.splits)
lemma digitsValue_two: "digitsValue [a, b] \<le> 255"
  using hexDigitValue_less[of a] hexDigitValue_less[of b]
  by (auto simp: digitsValue_def split: option.splits)

lemma takeWhile_le2: "length s \<le> k \<Longrightarrow> length (takeWhile P s) \<le> k"
  using length_takeWhile_le[of P s] by simp

lemma digitsValue_len1: "length ds \<le> 1 \<Longrightarrow> digitsValue ds \<le> 15"
  using digitsValue_one by (cases ds) (auto simp: digitsValue_Nil)

lemma digitsValue_len2: "length ds \<le> 2 \<Longrightarrow> digitsValue ds \<le> 255"
proof (cases ds)
  case Nil then show ?thesis by (simp add: digitsValue_Nil)
next
  case (Cons a t)
  assume l: "length ds \<le> 2"
  show ?thesis
  proof (cases t)
    case Nil then show ?thesis using Cons digitsValue_one[of a] by simp
  next
    case (Cons b u)
    then have "u = []" using l \<open>ds = a # t\<close> by simp
    then show ?thesis using Cons \<open>ds = a # t\<close> digitsValue_two[of a b] by simp
  qed
qed

lemma stripHexPrefix_len: "length (stripHexPrefix t) \<le> length t"
  by (auto simp: stripHexPrefix_def split: list.splits)

lemma stripSign_len: "stripSign t = (neg, u) \<Longrightarrow> length u \<le> length t \<and> (neg \<longrightarrow> length u < length t)"
  by (auto simp: stripSign_def split: list.splits if_splits)

lemma parseInt16_short:
  assumes "length s \<le> 2" "parseInt16 s = Some n"
  shows "- 15 \<le> n \<and> n \<le> 255"
proof -
  obtain neg t where st: "stripSign (dropWhile isWhiteSpace s) = (neg, t)" by force
  define ds where "ds = takeWhile isHexDigit (stripHexPrefix t)"
  have ld: "length (dropWhile isWhiteSpace s) \<le> 2"
    using assms(1) length_dropWhile_le[of isWhiteSpace s] by simp
  have lt: "length t \<le> 2" "neg \<Longrightarrow> length t \<le> 1"
    using stripSign_len[OF st] ld by auto
  have lds: "length ds \<le> length t"
    unfolding ds_def using length_takeWhile_le[of isHexDigit "stripHexPrefix t"] stripHexPrefix_len[of t]
    by simp
  have n: "n = (if neg then - int (digitsValue ds) else int (digitsValue ds))"
    using assms(2) st by (simp add: parseInt16_def ds_def Let_def split: if_splits)
  show ?thesis
  proof (cases neg)
    case True
    then have "digitsValue ds \<le> 15" using lt(2) lds by (intro digitsValue_len1) simp
    then show ?thesis using n True by simp
  next
    case False
    have "digitsValue ds \<le> 255" using lt(1) lds by (intro digitsValue_len2) simp
    then show ?thesis using n False by simp
  qed
qed

lemma chanOK_parse_slice: "b - a \<le> 2 \<Longrightarrow> chanOK (parseInt16 (slice a b s))"
  using parseInt16_short[of "slice a b s"]
  by (auto simp: chanOK_def slice_def split: option.splits)

lemma chanOK_step: "chanOK v \<Longrightarrow> chanOK (stepChannel d v)"
  by (auto simp: chanOK_def stepChannel_def split: option.splits)

lemma hexDigitValue_hexDigitChar_all:
  "list_all (\<lambda>d. hexDigitValue (hexDigitChar d) = Some d) [0..<16]"
  by code_simp

lemma hexDigitValue_hexDigitChar: "d < 16 \<Longrightarrow> hexDigitValue (hexDigitChar d) = Some d"
  using hexDigitValue_hexDigitChar_all by (simp add: list_all_iff)

lemma isHexDigit_hexDigitChar: "d < 16 \<Longrightarrow> isHexDigit (hexDigitChar d)"
  by (simp add: isHexDigit_def hexDigitValue_hexDigitChar)

lemma parseInt16_digits2:
  assumes "x < 16" "y < 16"
  shows "parseInt16 [hexDigitChar x, hexDigitChar y] = Some (int (16 * x + y))"
  using assms isHexDigit_hexDigitChar[of x] isHexDigit_hexDigitChar[of y]
    isHexDigit_not_space[of "hexDigitChar x"] isHexDigit_not_special[of "hexDigitChar x"]
    isHexDigit_not_special[of "hexDigitChar y"] hexDigitValue_hexDigitChar[of x]
    hexDigitValue_hexDigitChar[of y]
  by (simp add: parseInt16_def stripSign_def stripHexPrefix_def digitsValue_def)

lemma hexDigitChar_0: "hexDigitChar 0 = CHR ''0''" by (simp add: hexDigitChar_def)

lemma natToHex_small: "n < 16 \<Longrightarrow> natToHex n = [hexDigitChar n]"
  by (subst natToHex.simps) simp

lemma natToHex_two:
  "16 \<le> n \<Longrightarrow> n < 256 \<Longrightarrow> natToHex n = [hexDigitChar (n div 16), hexDigitChar (n mod 16)]"
  by (subst natToHex.simps) (simp add: natToHex_small)

lemma pad_print_nonneg:
  assumes "0 \<le> n" "n \<le> 255"
  shows "padStart2 (toString16 (Some n)) = [hexDigitChar (nat n div 16), hexDigitChar (nat n mod 16)]"
proof (cases "nat n < 16")
  case True
  then show ?thesis
    using assms by (simp add: padStart2_def toString16_def hexDigitChar_0 natToHex_small)
next
  case False
  then show ?thesis using assms by (simp add: padStart2_def toString16_def natToHex_two)
qed

lemma pad_print_neg:
  assumes "- 15 \<le> n" "n < 0"
  shows "padStart2 (toString16 (Some n)) = [CHR ''-'', hexDigitChar (nat (- n))]"
  using assms by (simp add: padStart2_def toString16_def natToHex_small)

lemma parseInt16_neg_digit:
  assumes "x < 16"
  shows "parseInt16 [CHR ''-'', hexDigitChar x] = Some (- int x)"
  using assms isHexDigit_hexDigitChar[of x] hexDigitValue_hexDigitChar[of x]
  by (simp add: parseInt16_def stripSign_def stripHexPrefix_def digitsValue_def isWhiteSpace_def)

lemma pad_print_parse:
  assumes "- 15 \<le> n" "n \<le> 255"
  shows "\<exists>c1 c2. padStart2 (toString16 (Some n)) = [c1, c2] \<and> parseInt16 [c1, c2] = Some n"
proof (cases "n < 0")
  case True
  then have "nat (- n) < 16" using assms by simp
  then show ?thesis using pad_print_neg[OF assms(1) True] parseInt16_neg_digit[of "nat (- n)"] True
    by simp
next
  case False
  then have n: "0 \<le> n" by simp
  have "nat n div 16 < 16" "nat n mod 16 < 16" using assms by simp_all
  then have "parseInt16 [hexDigitChar (nat n div 16), hexDigitChar (nat n mod 16)] = Some n"
    using parseInt16_digits2[of "nat n div 16" "nat n mod 16"] n by simp
  then show ?thesis using pad_print_nonneg[OF n assms(2)] by simp
qed

lemma parse_Na: "parseInt16 ''Na'' = None"
  by (simp add: parse_eval)

lemma pad_NaN: "padStart2 (toString16 None) = ''NaN''"
  by (simp add: padStart2_def toString16_def)

lemma luminance_fixedHex_None:
  assumes "chanOK r" "chanOK g" "chanOK b"
  shows "luminance (fixedHex (r, g, b)) = None \<longleftrightarrow> r = None \<or> g = None \<or> b = None"
proof (cases r)
  case None
  then show ?thesis by (simp add: luminance_def fixedHex_def pad_NaN slice_def parse_Na)
next
  case (Some rn)
  then obtain r1 r2 where r: "padStart2 (toString16 r) = [r1, r2]" "parseInt16 [r1, r2] = Some rn"
    using assms(1) pad_print_parse[of rn] by (auto simp: chanOK_def)
  show ?thesis
  proof (cases g)
    case None
    then show ?thesis using r by (simp add: luminance_def fixedHex_def pad_NaN slice_def parse_Na)
  next
    case (Some gn)
    then obtain g1 g2 where g: "padStart2 (toString16 g) = [g1, g2]" "parseInt16 [g1, g2] = Some gn"
      using assms(2) pad_print_parse[of gn] by (auto simp: chanOK_def)
    show ?thesis
    proof (cases b)
      case None
      then show ?thesis using r g \<open>r = Some rn\<close> \<open>g = Some gn\<close>
        by (simp add: luminance_def fixedHex_def pad_NaN slice_def parse_Na)
    next
      case (Some bn)
      then obtain b1 b2 where b: "padStart2 (toString16 b) = [b1, b2]" "parseInt16 [b1, b2] = Some bn"
        using assms(3) pad_print_parse[of bn] by (auto simp: chanOK_def)
      show ?thesis using r g b \<open>r = Some rn\<close> \<open>g = Some gn\<close> Some
        by (simp add: luminance_def fixedHex_def slice_def)
    qed
  qed
qed


lemma rgbOK_channelsOf: "rgbOK (channelsOf s)"
  by (simp add: rgbOK_def channelsOf_def Let_def chanOK_parse_slice)

lemma rgbOK_stepRGB: "rgbOK rgb \<Longrightarrow> rgbOK (stepRGB d rgb)"
  by (auto simp: rgbOK_def stepRGB_def chanOK_step split: prod.splits)

lemma rgbOK_funpow: "rgbOK rgb \<Longrightarrow> rgbOK ((stepRGB d ^^ k) rgb)"
  by (induction k) (auto intro: rgbOK_stepRGB)

lemma hasNaN_stepRGB: "hasNaN rgb \<Longrightarrow> hasNaN (stepRGB d rgb)"
  by (auto simp: hasNaN_def stepRGB_def stepChannel_def split: prod.splits)

lemma hasNaN_funpow: "hasNaN rgb \<Longrightarrow> hasNaN ((stepRGB d ^^ k) rgb)"
  by (induction k) (auto intro: hasNaN_stepRGB)

lemma luminance_fixedHex_NaN: "rgbOK rgb \<Longrightarrow> luminance (fixedHex rgb) = None \<longleftrightarrow> hasNaN rgb"
  using luminance_fixedHex_None by (cases rgb) (simp add: rgbOK_def hasNaN_def)

lemma contrastRatio_None_iff:
  "contrastRatio a b = None \<longleftrightarrow> luminance a = None \<or> luminance b = None"
  by (auto simp: contrastRatio_def Let_def split: option.splits)

lemma not_lt_not_ge_NaN: "\<not> num_lt x c \<Longrightarrow> \<not> num_ge x c \<Longrightarrow> x = None"
  by (cases x) (auto simp: num_lt_def num_ge_def)

lemma NaN_stays:
  assumes "rgbOK rgb" "contrastRatio (fixedHex rgb) bg = None"
  shows "contrastRatio (fixedHex ((stepRGB d ^^ k) rgb)) bg = None"
proof (cases "luminance bg")
  case None
  then show ?thesis by (simp add: contrastRatio_None_iff)
next
  case (Some y)
  then have "hasNaN rgb"
    using assms by (simp add: contrastRatio_None_iff luminance_fixedHex_NaN)
  then have "hasNaN ((stepRGB d ^^ k) rgb)" by (rule hasNaN_funpow)
  then show ?thesis
    using rgbOK_funpow[OF assms(1)] by (simp add: contrastRatio_None_iff luminance_fixedHex_NaN)
qed

lemma find_None_NaN:
  assumes "rgbOK rgb" "contrastRatio (fixedHex rgb) bg = None"
  shows "find (\<lambda>fixed. num_ge (contrastRatio fixed bg) c)
           (map (\<lambda>k. fixedHex ((stepRGB d ^^ k) rgb)) ks) = None"
  using NaN_stays[OF assms] by (simp add: find_None_iff num_ge_def)

lemma steps_shift:
  "map (\<lambda>k. fixedHex ((stepRGB d ^^ k) rgb)) [1..<Suc n] =
   (if n = 0 then [] else
    fixedHex (stepRGB d rgb) # map (\<lambda>k. fixedHex ((stepRGB d ^^ k) (stepRGB d rgb))) [1..<n])"
proof (cases n)
  case 0
  then show ?thesis by simp
next
  case (Suc m)
  have "[1..<Suc n] = 1 # [Suc 1..<Suc n]"
    using Suc by (intro upt_conv_Cons) simp
  also have "[Suc 1..<Suc n] = map Suc [1..<n]" by (simp only: map_Suc_upt)
  finally have "[1..<Suc n] = 1 # map Suc [1..<n]" .
  then show ?thesis using Suc by (simp add: funpow_swap1 comp_def del: upt_Suc)
qed

lemma repairLoop_find:
  assumes "rgbOK rgb" "num_lt ratio 4.5" "step \<le> 20"
  shows "repairLoop d bg step ratio rgb =
     find (\<lambda>fixed. num_ge (contrastRatio fixed bg) 4.5)
       (map (\<lambda>k. fixedHex ((stepRGB d ^^ k) rgb)) [1..<21 - step])"
  using assms
proof (induction "20 - step" arbitrary: step ratio rgb)
  case 0
  then show ?case by (simp add: repairLoop.simps)
next
  case (Suc n)
  define rgb' where "rgb' = stepRGB d rgb"
  define ratio' where "ratio' = contrastRatio (fixedHex rgb') bg"
  have ok': "rgbOK rgb'" unfolding rgb'_def using Suc.prems(1) by (rule rgbOK_stepRGB)
  have st: "step < 20" using Suc.hyps(2) by simp
  have idx: "21 - step = Suc (20 - step)" using st by simp
  have lst: "map (\<lambda>k. fixedHex ((stepRGB d ^^ k) rgb)) [1..<21 - step] =
     fixedHex rgb' # map (\<lambda>k. fixedHex ((stepRGB d ^^ k) rgb')) [1..<20 - step]"
    unfolding idx rgb'_def using st by (subst steps_shift) simp
  have unf: "repairLoop d bg step ratio rgb =
     (if num_ge ratio' 4.5 then Some (fixedHex rgb')
      else repairLoop d bg (step + 1) ratio' rgb')"
    using st Suc.prems(2) by (subst repairLoop.simps) (simp add: Let_def rgb'_def ratio'_def)
  show ?case
  proof (cases "num_ge ratio' 4.5")
    case True
    then show ?thesis unfolding unf lst by (simp add: ratio'_def)
  next
    case False
    show ?thesis
    proof (cases "num_lt ratio' 4.5")
      case True
      have "repairLoop d bg (step + 1) ratio' rgb' =
        find (\<lambda>fixed. num_ge (contrastRatio fixed bg) 4.5)
          (map (\<lambda>k. fixedHex ((stepRGB d ^^ k) rgb')) [1..<21 - (step + 1)])"
        using Suc.hyps(2) st by (intro Suc.hyps(1) ok' True) simp_all
      then show ?thesis unfolding unf lst using False by (simp add: ratio'_def)
    next
      case nlt: False
      have nan: "contrastRatio (fixedHex rgb') bg = None"
        using not_lt_not_ge_NaN[OF nlt False] by (simp add: ratio'_def)
      have "repairLoop d bg (step + 1) ratio' rgb' = None"
        using nlt by (subst repairLoop.simps) simp
      then show ?thesis unfolding unf lst
        using False find_None_NaN[OF ok' nan] by (simp add: ratio'_def)
    qed
  qed
qed

lemma repairLoop_specRepair:
  "num_lt ratio 4.5 \<Longrightarrow> repairLoop d bg 0 ratio (channelsOf current) = specRepair d bg (channelsOf current)"
  using repairLoop_find[OF rgbOK_channelsOf[of current], where step = 0 and ratio = ratio]
  by (simp add: specRepair_def)

lemma fixEntry_other: "j \<noteq> i \<Longrightarrow> fixEntry sw bg i m j = m j"
  by (simp add: fixEntry_def Let_def split: option.splits)

lemma fixEntry_low: "i < 3 \<Longrightarrow> fixEntry sw bg i m = m"
  by (simp add: fixEntry_def)

lemma fixEntry_local: "m i = m' i \<Longrightarrow> fixEntry sw bg i m i = fixEntry sw bg i m' i"
  by (simp add: fixEntry_def Let_def split: option.splits)

lemma fold_fixEntry_at:
  "fold (fixEntry sw bg) [0..<n] m j = (if j < n then fixEntry sw bg j m j else m j)"
proof (induction n arbitrary: j)
  case 0
  then show ?case by simp
next
  case (Suc n)
  define m' where "m' = fold (fixEntry sw bg) [0..<n] m"
  have step: "fold (fixEntry sw bg) [0..<Suc n] m = fixEntry sw bg n m'"
    by (simp add: m'_def)
  show ?case
  proof (cases "j = n")
    case True
    have "m' n = m n" using Suc.IH[of n] unfolding m'_def by simp
    then show ?thesis unfolding step True using fixEntry_local[of m' n m sw bg] by simp
  next
    case False
    then show ?thesis unfolding step using Suc.IH by (auto simp: fixEntry_other m'_def)
  qed
qed

lemma fixTextContrast_at:
  "background sw cs = Some bg \<Longrightarrow>
   fixTextContrast sw cs j = (if j < length sw then fixEntry sw bg j cs j else cs j)"
  by (simp add: fixTextContrast_def fold_fixEntry_at)

lemma fixTextContrast_no_background:
  "background sw cs = None \<Longrightarrow> fixTextContrast sw cs = cs"
  by (simp add: fixTextContrast_def)

lemma powr_12_5_less: "0 < x \<Longrightarrow> 0 \<le> q \<Longrightarrow> x ^ 12 < q ^ 5 \<Longrightarrow> x powr (12/5) < q" for x q :: real
proof (rule ccontr)
  assume x: "0 < x" and q: "0 \<le> q" and lt: "x ^ 12 < q ^ 5" and n: "\<not> x powr (12/5) < q"
  then have "q ^ 5 \<le> (x powr (12/5)) ^ 5" by (intro power_mono) auto
  then show False using lt x by (simp add: powr_12_5_pow5)
qed

lemma powr_12_5_ge: "0 < x \<Longrightarrow> q ^ 5 \<le> x ^ 12 \<Longrightarrow> q \<le> x powr (12/5)" for x q :: real
proof (rule ccontr)
  assume x: "0 < x" and le: "q ^ 5 \<le> x ^ 12" and n: "\<not> q \<le> x powr (12/5)"
  then have "x powr (12/5) < q" by simp
  then have "(x powr (12/5)) ^ 5 < q ^ 5" by (intro power_strict_mono) auto
  then show False using le x by (simp add: powr_12_5_pow5)
qed

lemma lighten_funpow:
  "n \<le> 255 \<Longrightarrow> (stepRGB True ^^ k) (Some n, Some n, Some n) =
   (Some (min 255 (n + 12 * int k)), Some (min 255 (n + 12 * int k)), Some (min 255 (n + 12 * int k)))"
  by (induction k) (auto simp: stepRGB_def stepChannel_def min_def)

lemma darken_funpow:
  "0 \<le> n \<Longrightarrow> (stepRGB False ^^ k) (Some n, Some n, Some n) =
   (Some (max 0 (n - 12 * int k)), Some (max 0 (n - 12 * int k)), Some (max 0 (n - 12 * int k)))"
  by (induction k) (auto simp: stepRGB_def stepChannel_def max_def)

lemma luminance_gray:
  assumes "0 \<le> n" "n \<le> 255"
  shows "luminance (fixedHex (Some n, Some n, Some n)) = Some (gammaWCAG (real_of_int n / 255))"
proof -
  obtain c1 c2 where c: "padStart2 (toString16 (Some n)) = [c1, c2]" "parseInt16 [c1, c2] = Some n"
    using pad_print_parse[of n] assms by auto
  show ?thesis using c by (simp add: fixedHex_def luminance_def slice_def algebra_simps)
qed

lemma gammaWCAG_nonneg: "0 \<le> c \<Longrightarrow> 0 \<le> gammaWCAG c"
  by (simp add: gammaWCAG_def)

lemma luminance_black: "luminance ''#000000'' = Some 0"
  by (simp add: luminance_def gammaWCAG_def parse_eval)

lemma ratio_gray_on_black:
  assumes "0 \<le> n" "n \<le> 255"
  shows "contrastRatio (fixedHex (Some n, Some n, Some n)) ''#000000'' =
    Some ((gammaWCAG (real_of_int n / 255) + 0.05) / 0.05)"
  using gammaWCAG_nonneg[of "real_of_int n / 255"] assms
  by (simp add: contrastRatio_def luminance_gray luminance_black Let_def)

lemma gammaWCAG_upper:
  assumes "0 \<le> c" "c \<le> 106 / 255"
  shows "gammaWCAG c < 0.175"
proof (cases "c \<le> 0.03928")
  case True
  then show ?thesis by (simp add: gammaWCAG_def)
next
  case False
  have "((c + 0.055) / 1.055) powr 2.4 \<le> ((106 / 255 + 0.055) / 1.055) powr 2.4"
    using assms by (intro powr_mono2) (auto simp: divide_simps)
  also have "\<dots> = (24005 / 53805) powr (12/5)" by simp
  also have "\<dots> < 0.175" by (rule powr_12_5_less) (simp_all add: divide_simps)
  finally show ?thesis using False by (simp add: gammaWCAG_def)
qed

lemma gammaWCAG_118: "0.175 \<le> gammaWCAG (118 / 255) \<and> gammaWCAG (118 / 255) < 0.188"
proof -
  have g: "gammaWCAG (118 / 255) = (5281 / 10761) powr (12/5)"
    by (simp add: gammaWCAG_def)
  have "(0.175::real) \<le> (5281 / 10761) powr (12/5)"
    by (rule powr_12_5_ge) (simp_all add: divide_simps)
  moreover have "(5281 / 10761) powr (12/5) < (0.188::real)"
    by (rule powr_12_5_less) (simp_all add: divide_simps)
  ultimately show ?thesis using g by simp
qed

lemma channels_0A: "channelsOf ''#0A0A0A'' = (Some 10, Some 10, Some 10)"
  by (simp add: channelsOf_def replaceHash_def parse_eval)

lemma ratio_0A_on_black: "contrastRatio ''#0A0A0A'' ''#000000'' = Some (1 + 200 / 3294.6)"
  by (simp add: contrastRatio_def luminance_def gammaWCAG_def parse_eval)

lemma find_split:
  assumes "\<forall>y \<in> set xs. \<not> P y" "P x"
  shows "find P (xs @ x # ys) = Some x"
  using assms by (induction xs) auto

lemma darken_0A_on_black: "specRepair False ''#000000'' (Some 10, Some 10, Some 10) = None"
proof -
  have "\<not> num_ge (contrastRatio (fixedHex ((stepRGB False ^^ k) (Some 10, Some 10, Some 10))) ''#000000'') 4.5"
    if "1 \<le> k" for k
  proof -
    have "max 0 (10 - 12 * int k) = 0" using that by simp
    then show ?thesis
      by (simp add: darken_funpow ratio_gray_on_black num_ge_def gammaWCAG_def)
  qed
  then show ?thesis by (simp add: specRepair_def find_None_iff)
qed

lemma lighten_0A_on_black: "specRepair True ''#000000'' (Some 10, Some 10, Some 10) = Some ''#767676''"
proof -
  let ?F = "\<lambda>k. fixedHex ((stepRGB True ^^ k) (Some 10, Some 10, Some 10))"
  let ?P = "\<lambda>fixed. num_ge (contrastRatio fixed ''#000000'') 4.5"
  have low: "\<not> ?P (?F k)" if "k < 9" for k
  proof -
    have m: "min 255 (10 + 12 * int k) = 10 + 12 * int k" using that by simp
    have "gammaWCAG (real_of_int (10 + 12 * int k) / 255) < 0.175"
      using that by (intro gammaWCAG_upper) simp_all
    then show ?thesis using that
      by (simp add: lighten_funpow m ratio_gray_on_black num_ge_def del: of_int_add of_int_mult)
  qed
  have f9: "?F 9 = ''#767676''"
    by (simp add: lighten_funpow fixedHex_def toString16_def padStart2_def natToHex_two
        hexDigitChar_def)
  have hi: "?P (?F 9)"
    using gammaWCAG_118 ratio_gray_on_black[of 118]
    by (simp add: lighten_funpow num_ge_def)
  have "[1..<21] = [1..<9] @ 9 # [10..<21]" by code_simp
  then have "map ?F [1..<21] = map ?F [1..<9] @ ?F 9 # map ?F [10..<21]" by simp
  moreover have "find ?P (map ?F [1..<9] @ ?F 9 # map ?F [10..<21]) = Some (?F 9)"
    using low hi by (intro find_split) auto
  ultimately show ?thesis unfolding specRepair_def f9 by simp
qed

section \<open>Rounding to the nearest double\<close>

text \<open>
  \<open>fl\<close> is evaluated on a concrete number from a scaling that brings it between
  \<open>2\<^sup>5\<^sup>2\<close> and \<open>2\<^sup>5\<^sup>3\<close>: the result is the integer nearest to the scaled number, the even
  one on a tie, scaled back. In general \<open>fl x\<close> differs from \<open>x\<close> by at most
  \<open>\<bar>x\<bar> / 2\<^sup>5\<^sup>3 + 2\<^sup>-\<^sup>1\<^sup>0\<^sup>7\<^sup>5\<close>.
\<close>

lemma fl_zero [simp]: "fl 0 = 0" by (simp add: fl_def)

lemma roundEven_eqI:
  assumes "\<bar>y - of_int m\<bar> < 1 / 2"
  shows "roundEven y = m"
proof -
  have lo: "of_int m - 1 / 2 < y" and hi: "y < of_int m + 1 / 2" using assms by linarith+
  consider "of_int m \<le> y" | "y < of_int m" by linarith
  then show ?thesis
  proof cases
    case 1
    then have "\<lfloor>y\<rfloor> = m" using hi by (intro floor_unique) linarith+
    then show ?thesis using hi by (simp add: roundEven_def Let_def)
  next
    case 2
    then have f: "\<lfloor>y\<rfloor> = m - 1" using lo by (intro floor_unique; simp; linarith)
    have "1 / 2 < y - of_int (m - 1)" using lo by simp
    then show ?thesis using f by (simp add: roundEven_def Let_def)
  qed
qed


lemma fl_scaled:
  assumes a: "a \<le> 1074"
    and lo: "2 ^ 52 \<le> \<bar>x\<bar> * 2 ^ a" and hi: "\<bar>x\<bar> * 2 ^ a < 2 ^ 53"
  shows "fl x = of_int (roundEven (x * 2 ^ a)) / 2 ^ a"
proof -
  have x0: "x \<noteq> 0" using lo by auto
  define e :: int where "e = 52 - int a"
  have p: "2 powr of_int (e - 52) = 1 / (2 ^ a :: real)"
  proof -
    have "e - 52 = - int a" by (simp add: e_def)
    then have "2 powr of_int (e - 52) = (2::real) powr (- real a)" by simp
    also have "\<dots> = 1 / 2 powr real a" by (simp add: powr_minus field_simps)
    also have "\<dots> = 1 / 2 ^ a" by (simp add: powr_realpow)
    finally show ?thesis .
  qed
  have pe: "2 powr of_int e = 2 ^ 52 / (2 ^ a :: real)"
  proof -
    have "(2::real) powr of_int e = 2 powr (52 - real a)" by (simp add: e_def)
    also have "\<dots> = 2 powr 52 / 2 powr real a" by (simp add: powr_diff)
    also have "\<dots> = 2 ^ 52 / 2 ^ a" by (simp add: powr_realpow flip: powr_numeral)
    finally show ?thesis .
  qed
  have pe1: "2 powr (of_int e + 1) = 2 ^ 53 / (2 ^ a :: real)"
  proof -
    have "(2::real) powr (of_int e + 1) = 2 powr of_int e * 2" by (simp add: powr_add)
    then show ?thesis by (simp add: pe)
  qed
  have "2 powr of_int e \<le> \<bar>x\<bar>" unfolding pe using lo by (simp add: field_simps)
  moreover have "\<bar>x\<bar> < 2 powr (of_int e + 1)" unfolding pe1 using hi by (simp add: field_simps)
  ultimately have "\<lfloor>log 2 \<bar>x\<bar>\<rfloor> = e"
    using x0 by (subst floor_log_eq_powr_iff) simp_all
  moreover have "- 1022 \<le> e" using a by (simp add: e_def)
  ultimately have mx: "max (- 1022) \<lfloor>log 2 \<bar>x\<bar>\<rfloor> = e" by simp
  have "x / (1 / 2 ^ a) = x * 2 ^ a" by simp
  then show ?thesis using x0 unfolding fl_def mx Let_def p by simp
qed

lemma fl_eqI_nat:
  assumes "a \<le> 1074" "2 ^ 52 \<le> \<bar>x\<bar> * 2 ^ a" "\<bar>x\<bar> * 2 ^ a < 2 ^ 53"
    and "\<bar>x * 2 ^ a - of_int m\<bar> < 1 / 2"
  shows "fl x = of_int m / 2 ^ a"
  using fl_scaled[OF assms(1-3)] roundEven_eqI[OF assms(4)] by simp


lemma fl_one: "fl 1 = 1"
  using fl_eqI_nat[of 52 1 "2 ^ 52"] by simp

lemma roundEven_error: "\<bar>of_int (roundEven y) - y\<bar> \<le> 1 / 2"
proof -
  have "of_int \<lfloor>y\<rfloor> \<le> y" "y < of_int \<lfloor>y\<rfloor> + 1" by linarith+
  then show ?thesis by (auto simp: roundEven_def Let_def)
qed

lemma fl_error: "\<bar>fl x - x\<bar> \<le> \<bar>x\<bar> / 2 ^ 53 + 1 / 2 ^ 1075"
proof (cases "x = 0")
  case True
  then show ?thesis by simp
next
  case False
  define e where "e = max (- 1022) \<lfloor>log 2 \<bar>x\<bar>\<rfloor>"
  define u :: real where "u = 2 powr of_int (e - 52)"
  have u: "0 < u" by (simp add: u_def)
  have f: "fl x = of_int (roundEven (x / u)) * u"
    using False by (simp add: fl_def e_def u_def Let_def)
  have "fl x - x = (of_int (roundEven (x / u)) - x / u) * u"
    using u by (simp add: f field_simps)
  then have "\<bar>fl x - x\<bar> = \<bar>of_int (roundEven (x / u)) - x / u\<bar> * u"
    using u by (simp add: abs_mult)
  also have "\<dots> \<le> 1 / 2 * u"
    using roundEven_error[of "x / u"] u by (intro mult_right_mono) simp_all
  finally have b: "\<bar>fl x - x\<bar> \<le> u / 2" by simp
  have half: "u / 2 = 2 powr of_int e / 2 ^ 53"
  proof -
    have "u = 2 powr (of_int e - 52)" by (simp add: u_def)
    also have "\<dots> = 2 powr of_int e / 2 powr 52" by (simp add: powr_diff)
    also have "\<dots> = 2 powr of_int e / 2 ^ 52" by (simp flip: powr_numeral)
    finally show ?thesis by simp
  qed
  show ?thesis
  proof (cases "- 1022 \<le> \<lfloor>log 2 \<bar>x\<bar>\<rfloor>")
    case True
    then have e: "e = \<lfloor>log 2 \<bar>x\<bar>\<rfloor>" by (simp add: e_def)
    have "2 powr of_int e \<le> \<bar>x\<bar>"
      using floor_log_eq_powr_iff[of "\<bar>x\<bar>" 2 e] False e by simp
    then have "u / 2 \<le> \<bar>x\<bar> / 2 ^ 53" unfolding half by (simp add: divide_right_mono)
    then show ?thesis using b by (simp add: add_increasing2)
  next
    case False
    then have e: "e = - 1022" by (simp add: e_def)
    have "2 powr of_int e = 1 / (2 ^ 1022 :: real)"
    proof -
      have "(2::real) powr of_int e = 2 powr (- 1022)" by (simp add: e)
      also have "\<dots> = 1 / 2 powr 1022" by (simp add: powr_minus field_simps)
      also have "\<dots> = 1 / 2 ^ 1022" by (simp flip: powr_numeral)
      finally show ?thesis .
    qed
    then have "u / 2 = 1 / 2 ^ 1075"
      unfolding half by (simp add: power_add[symmetric] del: power_add)
    then show ?thesis using b by (simp add: add_increasing)
  qed
qed

lemma fl_near:
  assumes "\<bar>x\<bar> \<le> 10 ^ 6"
  shows "\<bar>fl x - x\<bar> \<le> 1 / 10 ^ 9"
proof -
  have "(2::real) ^ 40 \<le> 2 ^ 1075" by (intro power_increasing) simp_all
  then have "1 / (2::real) ^ 1075 \<le> 1 / 2 ^ 40" by (intro divide_left_mono) simp_all
  moreover have "\<bar>x\<bar> / 2 ^ 53 \<le> 10 ^ 6 / 2 ^ 53" using assms by (intro divide_right_mono) simp_all
  moreover have "(10 ^ 6 / 2 ^ 53 :: real) + 1 / 2 ^ 40 \<le> 1 / 10 ^ 9" by simp
  ultimately show ?thesis using fl_error[of x] by linarith
qed

lemma fl_close:
  assumes "\<bar>x\<bar> \<le> 1000000"
  shows "\<bar>fl x - x\<bar> \<le> 1 / 1000000000"
  using fl_near[of x] assms by simp

lemma fl_bound:
  assumes "\<bar>x\<bar> \<le> B" "B \<le> 1000000"
  shows "\<bar>fl x\<bar> \<le> B + 1"
  using fl_close[of x] assms by linarith

lemma cmyk_component_bound:
  assumes D: "3 / 1000 \<le> D" and x: "\<bar>x\<bar> \<le> 2" and k: "\<bar>k\<bar> \<le> 4"
  shows "\<bar>fl (fl (fl (fl (1 - x) - k) / D) * 100)\<bar> \<le> 10 ^ 6"
proof -
  have "\<bar>1 - x\<bar> \<le> 3" using x by linarith
  then have a1: "\<bar>fl (1 - x)\<bar> \<le> 4" using fl_bound[of "1 - x" 3] by simp
  then have "\<bar>fl (1 - x) - k\<bar> \<le> 8" using k by linarith
  then have a2: "\<bar>fl (fl (1 - x) - k)\<bar> \<le> 9" using fl_bound[of "fl (1 - x) - k" 8] by simp
  have Dp: "0 < D" using D by linarith
  have "\<bar>fl (fl (1 - x) - k) / D\<bar> = \<bar>fl (fl (1 - x) - k)\<bar> / D" using Dp by simp
  also have "\<dots> \<le> 9 / (3 / 1000)" using a2 D by (intro frac_le) simp_all
  also have "\<dots> = 3000" by simp
  finally have q: "\<bar>fl (fl (1 - x) - k) / D\<bar> \<le> 3000" .
  then have a3: "\<bar>fl (fl (fl (1 - x) - k) / D)\<bar> \<le> 3001"
    using fl_bound[of "fl (fl (1 - x) - k) / D" 3000] by simp
  then have "\<bar>fl (fl (fl (1 - x) - k) / D) * 100\<bar> \<le> 300100" by (simp add: abs_mult)
  then show ?thesis using fl_bound[of "fl (fl (fl (1 - x) - k) / D) * 100" 300100] by simp
qed

lemma channel_near:
  assumes "- 15 \<le> n" "n \<le> 255"
  shows "\<bar>fl (real_of_int n / 255) - real_of_int n / 255\<bar> \<le> 1 / 1000000000"
    and "\<bar>fl (real_of_int n / 255)\<bar> \<le> 2"
proof -
  have b: "\<bar>real_of_int n / 255\<bar> \<le> 1" using assms by (simp add: abs_le_iff)
  then show n: "\<bar>fl (real_of_int n / 255) - real_of_int n / 255\<bar> \<le> 1 / 1000000000"
    by (intro fl_close) simp
  show "\<bar>fl (real_of_int n / 255)\<bar> \<le> 2" using n b by linarith
qed

lemma black_key_guard:
  assumes n: "- 15 \<le> n" "n \<le> 255" and k: "fl (1 - fl (real_of_int n / 255)) < 1"
  shows "3 / 1000 \<le> fl (1 - fl (1 - fl (real_of_int n / 255)))"
    and "\<bar>fl (1 - fl (real_of_int n / 255))\<bar> \<le> 4"
proof -
  define M where "M = fl (real_of_int n / 255)"
  define K where "K = fl (1 - M)"
  have M: "\<bar>M - real_of_int n / 255\<bar> \<le> 1 / 1000000000" "\<bar>M\<bar> \<le> 2"
    unfolding M_def using channel_near[OF n] by simp_all
  have "\<bar>1 - M\<bar> \<le> 3" using M(2) by linarith
  then have K: "\<bar>K - (1 - M)\<bar> \<le> 1 / 1000000000" unfolding K_def by (intro fl_close) simp
  show "\<bar>fl (1 - fl (real_of_int n / 255))\<bar> \<le> 4"
    using K M(2) unfolding K_def M_def by linarith
  have pos: "1 \<le> n"
  proof (rule ccontr)
    assume "\<not> 1 \<le> n"
    then consider "n = 0" | "n \<le> - 1" by linarith
    then show False
    proof cases
      case 1
      then have "K = 1" by (simp add: K_def M_def fl_one)
      then show ?thesis using k by (simp add: K_def M_def)
    next
      case 2
      then have "real_of_int n \<le> - 1" by linarith
      then have "real_of_int n / 255 \<le> - 1 / 255" by (simp add: divide_right_mono)
      then have "1 < K" using M(1) K by linarith
      then show ?thesis using k by (simp add: K_def M_def)
    qed
  qed
  then have "1 \<le> real_of_int n" by linarith
  then have "1 / 255 \<le> real_of_int n / 255" by (simp add: divide_right_mono)
  then have lo: "1 / 255 - 2 / 1000000000 \<le> 1 - K" using M(1) K by linarith
  have "\<bar>1 - K\<bar> \<le> 1000000" using K M(2) by linarith
  then have "\<bar>fl (1 - K) - (1 - K)\<bar> \<le> 1 / 1000000000" by (rule fl_close)
  then have "3 / 1000 \<le> fl (1 - K)" using lo by linarith
  then show "3 / 1000 \<le> fl (1 - fl (1 - fl (real_of_int n / 255)))"
    by (simp add: K_def M_def)
qed

section \<open>Divisions and printed magnitudes\<close>

text \<open>
  The model divides in \<open>contrastRatio\<close> and \<open>cmykOf\<close> and prints with \<open>toFixed1\<close>. The
  luminance of any string that has one exceeds \<open>-0.05\<close>, so both operands of the ratio
  are positive and no division by zero (an infinity in JavaScript) occurs. In the CMYK
  report the divisor \<^verbatim>\<open>1 - k\<close> is a positive double whenever \<^verbatim>\<open>k < 1\<close>, and the
  percentages of any payload have a magnitude of at most \<open>10\<^sup>6\<close>, inside the range where
  \<^verbatim>\<open>toFixed\<close> prints digits and far from overflow.
\<close>

lemma gammaWCAG_lower: "- 15 / 255 \<le> x \<Longrightarrow> - 0.005 < gammaWCAG x"
proof (cases "x \<le> 0.03928")
  case True
  assume "- 15 / 255 \<le> x"
  then have "- 15 / 255 / 12.92 \<le> x / 12.92" by (simp add: divide_right_mono)
  then show ?thesis using True by (simp add: gammaWCAG_def)
next
  case False
  have "(0::real) \<le> ((x + 0.055) / 1.055) powr 2.4" by (rule powr_ge_zero)
  then have "- 0.005 < ((x + 0.055) / 1.055) powr 2.4" by (rule less_le_trans[rotated]) simp
  then show ?thesis using False unfolding gammaWCAG_def by (simp only: if_False)
qed

lemma luminance_lower:
  assumes "luminance s = Some L"
  shows "- 0.05 < L"
proof -
  obtain r g b where p: "parseInt16 (slice 1 3 s) = Some r" "parseInt16 (slice 3 5 s) = Some g"
      "parseInt16 (slice 5 7 s) = Some b"
    and L: "L = 0.2126 * gammaWCAG (real_of_int r / 255) + 0.7152 * gammaWCAG (real_of_int g / 255)
              + 0.0722 * gammaWCAG (real_of_int b / 255)"
    using assms by (auto simp: luminance_def split: option.splits)
  have "chanOK (Some r)" "chanOK (Some g)" "chanOK (Some b)"
    using chanOK_parse_slice[of 3 1 s] chanOK_parse_slice[of 5 3 s] chanOK_parse_slice[of 7 5 s] p
    by simp_all
  then have "- 15 / 255 \<le> real_of_int r / 255" "- 15 / 255 \<le> real_of_int g / 255"
    "- 15 / 255 \<le> real_of_int b / 255"
    by (simp_all add: chanOK_def)
  then have "- 0.005 < gammaWCAG (real_of_int r / 255)" "- 0.005 < gammaWCAG (real_of_int g / 255)"
    "- 0.005 < gammaWCAG (real_of_int b / 255)"
    by (simp_all only: gammaWCAG_lower)
  then show ?thesis unfolding L by simp
qed

lemma contrastRatio_denominators_positive:
  "luminance a = Some x \<Longrightarrow> luminance b = Some y \<Longrightarrow> 0 < x + 0.05 \<and> 0 < y + 0.05"
  using luminance_lower[of a x] luminance_lower[of b y] by simp

lemma cmykOf_range:
  assumes "chanOK ri" "chanOK gi" "chanOK bi"
    and "cmykOf (channelOver255 ri) (channelOver255 gi) (channelOver255 bi) = (cy, ma, ye, k)"
  shows "(\<exists>v. times100 cy = Some v \<and> \<bar>v\<bar> \<le> 10 ^ 6) \<and>
         (\<exists>v. times100 ma = Some v \<and> \<bar>v\<bar> \<le> 10 ^ 6) \<and>
         (\<exists>v. times100 ye = Some v \<and> \<bar>v\<bar> \<le> 10 ^ 6) \<and>
         (k = None \<or> (\<exists>v. times100 k = Some v \<and> \<bar>v\<bar> \<le> 10 ^ 6))"
proof (cases "ri = None \<or> gi = None \<or> bi = None")
  case True
  then have "cmykOf (channelOver255 ri) (channelOver255 gi) (channelOver255 bi)
      = (Some 0, Some 0, Some 0, None)"
    by (auto simp: cmykOf_def channelOver255_def split: option.splits)
  then show ?thesis using assms(4) by (auto simp: times100_def)
next
  case False
  then obtain rn gn bn where c: "ri = Some rn" "gi = Some gn" "bi = Some bn" by auto
  have rng: "- 15 \<le> rn" "rn \<le> 255" "- 15 \<le> gn" "gn \<le> 255" "- 15 \<le> bn" "bn \<le> 255"
    using assms(1-3) c by (simp_all add: chanOK_def)
  define r where "r = fl (real_of_int rn / 255)"
  define g where "g = fl (real_of_int gn / 255)"
  define b where "b = fl (real_of_int bn / 255)"
  define K where "K = fl (1 - max r (max g b))"
  have ab: "\<bar>r\<bar> \<le> 2" "\<bar>g\<bar> \<le> 2" "\<bar>b\<bar> \<le> 2"
    unfolding r_def g_def b_def using channel_near(2) rng by simp_all
  obtain n where n: "- 15 \<le> n" "n \<le> 255" and mx: "max r (max g b) = fl (real_of_int n / 255)"
    using rng unfolding r_def g_def b_def max_def by (metis (full_types))
  have Kb: "\<bar>K\<bar> \<le> 4"
  proof -
    have "\<bar>1 - max r (max g b)\<bar> \<le> 3" using ab by (auto simp: max_def)
    then show ?thesis unfolding K_def using fl_bound[of "1 - max r (max g b)" 3] by simp
  qed
  have comp: "\<bar>fl ((if K < 1 then fl (fl (fl (1 - x) - K) / fl (1 - K)) else 0) * 100)\<bar> \<le> 10 ^ 6"
    if "\<bar>x\<bar> \<le> 2" for x
  proof (cases "K < 1")
    case True
    then have "3 / 1000 \<le> fl (1 - K)"
      using black_key_guard(1)[OF n] unfolding K_def mx by simp
    then show ?thesis using True cmyk_component_bound[OF _ that Kb] by simp
  next
    case False
    then show ?thesis by simp
  qed
  have "\<bar>K * 100\<bar> \<le> 400" using Kb by (simp add: abs_mult)
  then have kk: "\<bar>fl (K * 100)\<bar> \<le> 10 ^ 6" using fl_bound[of "K * 100" 400] by simp
  have "cmykOf (channelOver255 ri) (channelOver255 gi) (channelOver255 bi) =
      (Some (if K < 1 then fl (fl (fl (1 - r) - K) / fl (1 - K)) else 0),
       Some (if K < 1 then fl (fl (fl (1 - g) - K) / fl (1 - K)) else 0),
       Some (if K < 1 then fl (fl (fl (1 - b) - K) / fl (1 - K)) else 0),
       Some K)"
    by (simp add: c cmykOf_def channelOver255_def Let_def r_def g_def b_def K_def)
  then show ?thesis
    using assms(4) comp[OF ab(1)] comp[OF ab(2)] comp[OF ab(3)] kk
    by (auto simp: times100_def)
qed

lemma cmykOf_divisor_positive:
  assumes "chanOK (Some rn)" "chanOK (Some gn)" "chanOK (Some bn)"
    and "k = fl (1 - max (fl (real_of_int rn / 255))
                   (max (fl (real_of_int gn / 255)) (fl (real_of_int bn / 255))))"
    and "k < 1"
  shows "0 < fl (1 - k)"
proof -
  have rng: "- 15 \<le> rn" "rn \<le> 255" "- 15 \<le> gn" "gn \<le> 255" "- 15 \<le> bn" "bn \<le> 255"
    using assms(1-3) by (simp_all add: chanOK_def)
  obtain n where n: "- 15 \<le> n" "n \<le> 255"
    and mx: "max (fl (real_of_int rn / 255)) (max (fl (real_of_int gn / 255)) (fl (real_of_int bn / 255)))
        = fl (real_of_int n / 255)"
    using rng unfolding max_def by (metis (full_types))
  have "3 / 1000 \<le> fl (1 - k)"
    using black_key_guard(1)[OF n] assms(5) unfolding assms(4) mx by simp
  then show ?thesis by linarith
qed

section \<open>The repair on concrete palettes\<close>

text \<open>
  C1. On the background \<^verbatim>\<open>#000000\<close> with the text colour \<^verbatim>\<open>#0A0A0A\<close> at index 3, the
  colour fails AA. The flag \<^verbatim>\<open>isDark\<close> is \<^verbatim>\<open>luminance(bg) > 0.5\<close>, which is false on a
  black background, so the loop darkens: every step yields \<^verbatim>\<open>#000000\<close>, the budget runs
  out and the overrides are returned without a repaired entry. With the flag set the same
  loop lightens and returns \<^verbatim>\<open>#767676\<close> at its ninth step.
\<close>

theorem fixTextContrast_black_background_not_repaired:
  "num_lt (contrastRatio ''#0A0A0A'' ''#000000'') 4.5 \<and>
   num_gt (luminance ''#000000'') 0.5 = False \<and>
   fixTextContrast [''#000000'', ''#111111'', ''#222222'', ''#0A0A0A''] Map.empty = Map.empty \<and>
   repairLoop False ''#000000'' 0 (contrastRatio ''#0A0A0A'' ''#000000'') (channelsOf ''#0A0A0A'') = None \<and>
   repairLoop True ''#000000'' 0 (contrastRatio ''#0A0A0A'' ''#000000'') (channelsOf ''#0A0A0A'')
     = Some ''#767676''"
proof -
  have lt: "num_lt (contrastRatio ''#0A0A0A'' ''#000000'') 4.5"
    by (simp add: ratio_0A_on_black num_lt_def)
  have dir: "num_gt (luminance ''#000000'') 0.5 = False"
    by (simp add: luminance_black num_gt_def)
  have dark: "repairLoop False ''#000000'' 0 (contrastRatio ''#0A0A0A'' ''#000000'') (channelsOf ''#0A0A0A'') = None"
    using repairLoop_specRepair[OF lt, where d = False and bg = "''#000000''" and current = "''#0A0A0A''"] darken_0A_on_black
    by (simp add: channels_0A)
  have light: "repairLoop True ''#000000'' 0 (contrastRatio ''#0A0A0A'' ''#000000'') (channelsOf ''#0A0A0A'')
     = Some ''#767676''"
    using repairLoop_specRepair[OF lt, where d = True and bg = "''#000000''" and current = "''#0A0A0A''"] lighten_0A_on_black
    by (simp add: channels_0A)
  have bg: "background [''#000000'', ''#111111'', ''#222222'', ''#0A0A0A''] Map.empty = Some ''#000000''"
    by (simp add: background_def)
  have "fixTextContrast [''#000000'', ''#111111'', ''#222222'', ''#0A0A0A''] Map.empty j = None" for j
    using lt dark dir
    by (simp add: fixTextContrast_at[OF bg] fixEntry_def Let_def num_ge_def num_lt_def
        ratio_0A_on_black nth_Cons' split: option.splits)
  then have "fixTextContrast [''#000000'', ''#111111'', ''#222222'', ''#0A0A0A''] Map.empty = Map.empty"
    by (intro ext)
  then show ?thesis using lt dir dark light by blast
qed

section \<open>The repair loop against its specification\<close>

text \<open>
  For a well-formed colour the code's reading of the channels, its printing of the stepped
  channels and its step agree with the colours of the specification.
\<close>

lemma hexDigitValue_lowerHex: "hexDigitValue (lowerHex c) = hexDigitValue c"
  by (simp add: lowerHex_def hexDigitValue_def)

lemma lowerHex_hash: "lowerHex c = CHR ''#'' \<Longrightarrow> c = CHR ''#''"
  by (simp add: lowerHex_def split: if_splits)

lemma parseInt16_two_values:
  assumes x: "hexDigitValue a = Some x" and y: "hexDigitValue b = Some y"
  shows "parseInt16 [a, b] = Some (int (16 * x + y))"
proof -
  have h: "isHexDigit a" "isHexDigit b" using x y by (simp_all add: isHexDigit_def)
  show ?thesis
    using h x y isHexDigit_not_space[of a] isHexDigit_not_special[of a]
      isHexDigit_not_special[of b]
    by (simp add: parseInt16_def stripSign_def stripHexPrefix_def digitsValue_def)
qed

lemma parseInt16_spelled:
  assumes v: "0 \<le> v" "v \<le> 255" and s: "[lowerHex a, lowerHex b] = specHexPair v"
  shows "parseInt16 [a, b] = Some v"
proof -
  have d: "nat v div 16 < 16" "nat v mod 16 < 16" using v by simp_all
  have "lowerHex a = hexDigitChar (nat v div 16)" "lowerHex b = hexDigitChar (nat v mod 16)"
    using s by (simp_all add: specHexPair_def hexDigitChar_def)
  then have "hexDigitValue a = Some (nat v div 16)" "hexDigitValue b = Some (nat v mod 16)"
    using hexDigitValue_hexDigitChar[OF d(1)] hexDigitValue_hexDigitChar[OF d(2)]
      hexDigitValue_lowerHex[of a] hexDigitValue_lowerHex[of b] by simp_all
  then have "parseInt16 [a, b] = Some (int (16 * (nat v div 16) + nat v mod 16))"
    by (rule parseInt16_two_values)
  then show ?thesis using v by simp
qed

lemma channelsOf_spelled:
  assumes g: "inGamut (r, g, b)" and s: "map lowerHex s = specHex (r, g, b)"
  shows "channelsOf s = (Some r, Some g, Some b)"
proof -
  obtain h c1 c2 c3 c4 c5 c6 where sh: "s = [h, c1, c2, c3, c4, c5, c6]"
    using s by (auto simp: specHex_def specHexPair_def map_eq_Cons_conv)
  have h: "h = CHR ''#''" using s lowerHex_hash[of h] by (simp add: sh specHex_def)
  have p: "[lowerHex c1, lowerHex c2] = specHexPair r" "[lowerHex c3, lowerHex c4] = specHexPair g"
    "[lowerHex c5, lowerHex c6] = specHexPair b"
    using s by (simp_all add: sh specHex_def specHexPair_def)
  have "parseInt16 [c1, c2] = Some r" "parseInt16 [c3, c4] = Some g" "parseInt16 [c5, c6] = Some b"
    using g p by (simp_all add: inGamut_def parseInt16_spelled)
  then show ?thesis by (simp add: channelsOf_def sh h replaceHash_def slice_def)
qed

lemma fixedHex_specHex:
  assumes "inGamut (r, g, b)"
  shows "fixedHex (Some r, Some g, Some b) = specHex (r, g, b)"
  using assms
  by (simp add: fixedHex_def specHex_def specHexPair_def inGamut_def pad_print_nonneg hexDigitChar_def)

lemma inGamut_specStep: "inGamut rgb \<Longrightarrow> inGamut (specStep d rgb)"
  by (auto simp: inGamut_def specStep_def split: prod.splits)

lemma inGamut_funpow: "inGamut rgb \<Longrightarrow> inGamut ((specStep d ^^ k) rgb)"
  by (induction k) (simp_all add: inGamut_specStep)

lemma stepRGB_specStep_one:
  "stepRGB d (Some r, Some g, Some b) =
   (case specStep d (r, g, b) of (r', g', b') \<Rightarrow> (Some r', Some g', Some b'))"
  by (simp add: stepRGB_def stepChannel_def specStep_def)

lemma stepRGB_specStep:
  "(stepRGB d ^^ k) (Some r, Some g, Some b) =
   (case (specStep d ^^ k) (r, g, b) of (r', g', b') \<Rightarrow> (Some r', Some g', Some b'))"
proof (induction k)
  case 0
  then show ?case by simp
next
  case (Suc k)
  obtain r' g' b' where e: "(specStep d ^^ k) (r, g, b) = (r', g', b')" by (rule prod_cases3)
  have "(stepRGB d ^^ Suc k) (Some r, Some g, Some b) = stepRGB d (Some r', Some g', Some b')"
    using Suc by (simp add: e)
  also have "\<dots> = (case specStep d (r', g', b') of (r', g', b') \<Rightarrow> (Some r', Some g', Some b'))"
    by (rule stepRGB_specStep_one)
  also have "specStep d (r', g', b') = (specStep d ^^ Suc k) (r, g, b)" by (simp add: e)
  finally show ?case .
qed

lemma fixedHex_funpow:
  assumes "inGamut (r, g, b)"
  shows "fixedHex ((stepRGB d ^^ k) (Some r, Some g, Some b)) = specHex ((specStep d ^^ k) (r, g, b))"
proof -
  obtain r' g' b' where e: "(specStep d ^^ k) (r, g, b) = (r', g', b')" by (rule prod_cases3)
  have "inGamut (r', g', b')" using inGamut_funpow[OF assms, where d = d and k = k] by (simp add: e)
  then show ?thesis by (simp add: stepRGB_specStep e fixedHex_specHex)
qed

lemma specRepair_spelled:
  assumes "inGamut (r, g, b)"
  shows "specRepair d bg (Some r, Some g, Some b) =
     find (\<lambda>fixed. num_ge (contrastRatio fixed bg) 4.5)
       (map (\<lambda>k. specHex ((specStep d ^^ k) (r, g, b))) [1..<21])"
  unfolding specRepair_def by (simp only: fixedHex_funpow[OF assms])

text \<open>
  C2. For a candidate entry (index at least 3) whose current colour has a ratio below 4.5
  against the background (the override at index 0, else the first swatch), the returned
  entry is the first of the 20 stepped colours whose ratio reaches 4.5, the direction
  being fixed once by \<^verbatim>\<open>luminance(bg) > 0.5\<close> (set: each channel \<open>min 255 (c + 12)\<close>,
  unset: \<open>max 0 (c - 12)\<close>); when none of the 20 reaches 4.5 the entry is what it was in
  the input. This holds for every string as the
  current colour, with the channels the code parses from it; and when the current colour
  stands for the colour \<open>(r, g, b)\<close>, the stepped colours are the hex strings of
  \<open>(r, g, b)\<close> moved \<open>k\<close> times by 12, for \<open>k\<close> from 1 to 20.
\<close>

theorem fixTextContrast_steps_to_first_passing:
  assumes "3 \<le> i" "i < length swatches"
    and "bg = (case customSwatches 0 of Some v \<Rightarrow> v | None \<Rightarrow> swatches ! 0)"
    and "current = (case customSwatches i of Some v \<Rightarrow> v | None \<Rightarrow> swatches ! i)"
    and "num_lt (contrastRatio current bg) 4.5"
  shows "fixTextContrast swatches customSwatches i =
     (case specRepair (num_gt (luminance bg) 0.5) bg (channelsOf current) of
        Some fixed \<Rightarrow> Some fixed
      | None \<Rightarrow> customSwatches i) \<and>
    stepRGB True (Some r, Some g, Some b) =
      (Some (min 255 (r + 12)), Some (min 255 (g + 12)), Some (min 255 (b + 12))) \<and>
    stepRGB False (Some r, Some g, Some b) =
      (Some (max 0 (r - 12)), Some (max 0 (g - 12)), Some (max 0 (b - 12))) \<and>
    (inGamut (r, g, b) \<and> map lowerHex current = specHex (r, g, b) \<longrightarrow>
       fixTextContrast swatches customSwatches i =
         (case find (\<lambda>fixed. num_ge (contrastRatio fixed bg) 4.5)
                 (map (\<lambda>k. specHex ((specStep (num_gt (luminance bg) 0.5) ^^ k) (r, g, b))) [1..<21]) of
            Some fixed \<Rightarrow> Some fixed
          | None \<Rightarrow> customSwatches i))"
proof -
  have bgd: "background swatches customSwatches = Some bg"
  proof (cases swatches)
    case Nil
    then show ?thesis using assms(2) by simp
  next
    case (Cons s ss)
    then show ?thesis using assms(3) by (simp add: background_def split: option.splits)
  qed
  have nge: "\<not> num_ge (contrastRatio current bg) 4.5"
    using assms(5) by (auto simp: num_lt_def num_ge_def split: option.splits)
  have "fixTextContrast swatches customSwatches i = fixEntry swatches bg i customSwatches i"
    using assms(2) by (simp add: fixTextContrast_at[OF bgd])
  also have "\<dots> = (case repairLoop (num_gt (luminance bg) 0.5) bg 0 (contrastRatio current bg)
                       (channelsOf current) of
                     Some fixed \<Rightarrow> Some fixed | None \<Rightarrow> customSwatches i)"
    using assms(1) nge unfolding fixEntry_def assms(4)[symmetric] Let_def
    by (simp split: option.splits)
  finally have gen: "fixTextContrast swatches customSwatches i =
     (case specRepair (num_gt (luminance bg) 0.5) bg (channelsOf current) of
        Some fixed \<Rightarrow> Some fixed
      | None \<Rightarrow> customSwatches i)"
    by (simp add: repairLoop_specRepair[OF assms(5)])
  have wf: "fixTextContrast swatches customSwatches i =
         (case find (\<lambda>fixed. num_ge (contrastRatio fixed bg) 4.5)
                 (map (\<lambda>k. specHex ((specStep (num_gt (luminance bg) 0.5) ^^ k) (r, g, b))) [1..<21]) of
            Some fixed \<Rightarrow> Some fixed
          | None \<Rightarrow> customSwatches i)"
    if "inGamut (r, g, b) \<and> map lowerHex current = specHex (r, g, b)"
  proof -
    have ch: "channelsOf current = (Some r, Some g, Some b)"
      using that by (intro channelsOf_spelled) simp_all
    show ?thesis using that gen by (simp add: ch specRepair_spelled)
  qed
  show ?thesis using gen wf by (simp add: stepRGB_def stepChannel_def)
qed

text \<open>
  Three palettes. On \<^verbatim>\<open>#767676\<close> the colour \<^verbatim>\<open>#302010\<close> is darkened through
  \<^verbatim>\<open>#241404\<close> and \<^verbatim>\<open>#180800\<close>, which still fail, to \<^verbatim>\<open>#0c0000\<close>, which passes. On
  the overriding background \<^verbatim>\<open>#FFFFFF\<close> the override \<^verbatim>\<open>#F0F0F0\<close> is lightened to
  \<^verbatim>\<open>#fcfcfc\<close> and then to \<^verbatim>\<open>#ffffff\<close> for the rest of the budget, never passes, and
  stays as it was. On \<^verbatim>\<open>#767676\<close> the colour \<^verbatim>\<open>#0A0A0A\<close> reaches \<^verbatim>\<open>#000000\<close> at its
  first step.
\<close>

lemma luminance_76: "luminance ''#767676'' = Some (gammaWCAG (118 / 255))"
  by (simp add: luminance_def slice_def parseInt16_def stripSign_def stripHexPrefix_def
      digitsValue_def isWhiteSpace_def isHexDigit_def hexDigitValue_def algebra_simps)

lemma luminance_0A: "luminance ''#0A0A0A'' = Some (10 / 3294.6)"
  by (simp add: luminance_def gammaWCAG_def parse_eval)

lemma ratio_0A_on_76: "num_lt (contrastRatio ''#0A0A0A'' ''#767676'') 4.5"
proof -
  define L where "L = gammaWCAG (118 / 255)"
  have L: "0.175 \<le> L" "L < 0.188" using gammaWCAG_118 by (simp_all add: L_def)
  have "contrastRatio ''#0A0A0A'' ''#767676'' = Some ((L + 0.05) / (10 / 3294.6 + 0.05))"
    using L by (simp add: contrastRatio_def luminance_76 luminance_0A Let_def L_def)
  moreover have "(L + 0.05) / (10 / 3294.6 + 0.05) < 4.5"
    using L by (simp add: divide_simps)
  ultimately show ?thesis by (simp add: num_lt_def)
qed

lemma ratio_black_on_76: "num_ge (contrastRatio ''#000000'' ''#767676'') 4.5"
proof -
  define L where "L = gammaWCAG (118 / 255)"
  have L: "0.175 \<le> L" "L < 0.188" using gammaWCAG_118 by (simp_all add: L_def)
  have "contrastRatio ''#000000'' ''#767676'' = Some ((L + 0.05) / 0.05)"
    using L by (simp add: contrastRatio_def luminance_76 luminance_black Let_def L_def)
  moreover have "4.5 \<le> (L + 0.05) / 0.05"
    using L by (simp add: divide_simps)
  ultimately show ?thesis by (simp add: num_ge_def)
qed

lemma darken_0A_on_76: "specRepair False ''#767676'' (Some 10, Some 10, Some 10) = Some ''#000000''"
proof -
  have up: "[1..<21] = 1 # [2..<21]" by code_simp
  have f1: "fixedHex ((stepRGB False ^^ 1) (Some 10, Some 10, Some 10)) = ''#000000''"
    by (simp add: stepRGB_def stepChannel_def fixedHex_def toString16_def padStart2_def
        natToHex_small hexDigitChar_def)
  show ?thesis unfolding specRepair_def up list.map f1 using ratio_black_on_76 by simp
qed

lemma gammaWCAG_118_lower: "0.18 \<le> gammaWCAG (118 / 255)"
proof -
  have g: "gammaWCAG (118 / 255) = (5281 / 10761) powr (12/5)"
    by (simp add: gammaWCAG_def)
  have "(0.18::real) \<le> (5281 / 10761) powr (12/5)"
    by (rule powr_12_5_ge) (simp_all add: divide_simps)
  then show ?thesis using g by simp
qed

lemma dark_fails_on_76:
  assumes "luminance s = Some x" "0.0029 \<le> x" "x < 0.175"
  shows "num_lt (contrastRatio s ''#767676'') 4.5"
proof -
  define L where "L = gammaWCAG (118 / 255)"
  have L: "0.175 \<le> L" "L < 0.188" using gammaWCAG_118 by (simp_all add: L_def)
  have "contrastRatio s ''#767676'' = Some ((L + 0.05) / (x + 0.05))"
    using L assms by (simp add: contrastRatio_def luminance_76 Let_def L_def)
  moreover have "(L + 0.05) / (x + 0.05) < 4.5"
    using L assms by (simp add: divide_simps)
  ultimately show ?thesis by (simp add: num_lt_def)
qed

lemma dark_passes_on_76:
  assumes "luminance s = Some x" "0 \<le> x" "x \<le> 0.0011"
  shows "num_ge (contrastRatio s ''#767676'') 4.5"
proof -
  define L where "L = gammaWCAG (118 / 255)"
  have L: "0.18 \<le> L" using gammaWCAG_118_lower by (simp add: L_def)
  have "contrastRatio s ''#767676'' = Some ((L + 0.05) / (x + 0.05))"
    using L assms by (simp add: contrastRatio_def luminance_76 Let_def L_def)
  moreover have "4.5 \<le> (L + 0.05) / (x + 0.05)"
    using L assms by (simp add: divide_simps)
  ultimately show ?thesis by (simp add: num_ge_def)
qed

lemma num_lt_not_ge: "num_lt x c \<Longrightarrow> \<not> num_ge x c"
  by (auto simp: num_lt_def num_ge_def split: option.splits)

lemma gammaWCAG_dark_samples:
  "0.02 \<le> gammaWCAG (48 / 255)" "0.017 \<le> gammaWCAG (36 / 255)" "0.009 \<le> gammaWCAG (24 / 255)"
  "gammaWCAG (12 / 255) \<le> 0.0038"
proof -
  have "gammaWCAG (48 / 255) = (827 / 3587) powr (12 / 5)" by (simp add: gammaWCAG_def)
  moreover have "(0.02::real) \<le> (827 / 3587) powr (12 / 5)"
    by (rule powr_12_5_ge) (simp_all add: divide_simps)
  ultimately show "0.02 \<le> gammaWCAG (48 / 255)" by simp
  have "gammaWCAG (36 / 255) = (667 / 3587) powr (12 / 5)" by (simp add: gammaWCAG_def)
  moreover have "(0.017::real) \<le> (667 / 3587) powr (12 / 5)"
    by (rule powr_12_5_ge) (simp_all add: divide_simps)
  ultimately show "0.017 \<le> gammaWCAG (36 / 255)" by simp
  have "gammaWCAG (24 / 255) = (507 / 3587) powr (12 / 5)" by (simp add: gammaWCAG_def)
  moreover have "(0.009::real) \<le> (507 / 3587) powr (12 / 5)"
    by (rule powr_12_5_ge) (simp_all add: divide_simps)
  ultimately show "0.009 \<le> gammaWCAG (24 / 255)" by simp
  have "gammaWCAG (12 / 255) = (347 / 3587) powr (12 / 5)" by (simp add: gammaWCAG_def)
  moreover have "(347 / 3587) powr (12 / 5) < (0.0038::real)"
    by (rule powr_12_5_less) (simp_all add: divide_simps)
  ultimately show "gammaWCAG (12 / 255) \<le> 0.0038" by simp
qed

lemma ratio_302010_on_76: "num_lt (contrastRatio ''#302010'' ''#767676'') 4.5"
proof (rule dark_fails_on_76)
  have u: "gammaWCAG (48 / 255) < 0.175" "gammaWCAG (32 / 255) < 0.175" "gammaWCAG (16 / 255) < 0.175"
    by (rule gammaWCAG_upper; simp)+
  have l: "0 \<le> gammaWCAG (32 / 255)" "0 \<le> gammaWCAG (16 / 255)"
    by (rule gammaWCAG_nonneg; simp)+
  show "luminance ''#302010'' = Some (0.2126 * gammaWCAG (48 / 255)
      + 0.7152 * gammaWCAG (32 / 255) + 0.0722 * gammaWCAG (16 / 255))"
    by (simp add: luminance_def parse_eval)
  show "0.0029 \<le> 0.2126 * gammaWCAG (48 / 255)
      + 0.7152 * gammaWCAG (32 / 255) + 0.0722 * gammaWCAG (16 / 255)"
    using l gammaWCAG_dark_samples(1) by simp
  show "0.2126 * gammaWCAG (48 / 255)
      + 0.7152 * gammaWCAG (32 / 255) + 0.0722 * gammaWCAG (16 / 255) < 0.175"
    using u by simp
qed

lemma ratio_241404_on_76: "num_lt (contrastRatio ''#241404'' ''#767676'') 4.5"
proof (rule dark_fails_on_76)
  have u: "gammaWCAG (36 / 255) < 0.175" "gammaWCAG (20 / 255) < 0.175" "gammaWCAG (4 / 255) < 0.175"
    by (rule gammaWCAG_upper; simp)+
  have l: "0 \<le> gammaWCAG (20 / 255)" "0 \<le> gammaWCAG (4 / 255)"
    by (rule gammaWCAG_nonneg; simp)+
  show "luminance ''#241404'' = Some (0.2126 * gammaWCAG (36 / 255)
      + 0.7152 * gammaWCAG (20 / 255) + 0.0722 * gammaWCAG (4 / 255))"
    by (simp add: luminance_def parse_eval)
  show "0.0029 \<le> 0.2126 * gammaWCAG (36 / 255)
      + 0.7152 * gammaWCAG (20 / 255) + 0.0722 * gammaWCAG (4 / 255)"
    using l gammaWCAG_dark_samples(2) by simp
  show "0.2126 * gammaWCAG (36 / 255)
      + 0.7152 * gammaWCAG (20 / 255) + 0.0722 * gammaWCAG (4 / 255) < 0.175"
    using u by simp
qed

lemma ratio_180800_on_76: "num_lt (contrastRatio ''#180800'' ''#767676'') 4.5"
proof (rule dark_fails_on_76)
  have u: "gammaWCAG (24 / 255) < 0.175" by (rule gammaWCAG_upper; simp)
  show "luminance ''#180800'' = Some (0.2126 * gammaWCAG (24 / 255) + 0.7152 * (8 / 255 / 12.92))"
    by (simp add: luminance_def parse_eval gammaWCAG_def)
  show "0.0029 \<le> 0.2126 * gammaWCAG (24 / 255) + 0.7152 * (8 / 255 / 12.92)"
    using gammaWCAG_dark_samples(3) by simp
  show "0.2126 * gammaWCAG (24 / 255) + 0.7152 * (8 / 255 / 12.92) < 0.175"
    using u by simp
qed

lemma ratio_0c0000_on_76: "num_ge (contrastRatio ''#0c0000'' ''#767676'') 4.5"
proof (rule dark_passes_on_76)
  have l: "0 \<le> gammaWCAG (12 / 255)" by (rule gammaWCAG_nonneg) simp
  show "luminance ''#0c0000'' = Some (0.2126 * gammaWCAG (12 / 255))"
    by (simp add: luminance_def parse_eval gammaWCAG_def)
  show "0 \<le> 0.2126 * gammaWCAG (12 / 255)" using l by simp
  show "0.2126 * gammaWCAG (12 / 255) \<le> 0.0011" using gammaWCAG_dark_samples(4) by simp
qed

lemma darken_302010_on_76:
  "find (\<lambda>fixed. num_ge (contrastRatio fixed ''#767676'') 4.5)
     (map (\<lambda>k. specHex ((specStep False ^^ k) (48, 32, 16))) [1..<21]) = Some ''#0c0000''"
proof -
  let ?P = "\<lambda>fixed. num_ge (contrastRatio fixed ''#767676'') 4.5"
  let ?F = "\<lambda>k. specHex ((specStep False ^^ k) (48, 32, 16))"
  have up: "[1..<21] = [1, 2] @ 3 # [4..<21]" by code_simp
  have s1: "specStep False (48, 32, 16) = (36, 20, 4)" by (simp add: specStep_def)
  have s2: "specStep False (36, 20, 4) = (24, 8, 0)" by (simp add: specStep_def)
  have s3: "specStep False (24, 8, 0) = (12, 0, 0)" by (simp add: specStep_def)
  have f1: "?F 1 = ''#241404''" by (simp add: s1 specHex_def specHexPair_def)
  have f2: "?F 2 = ''#180800''"
    by (simp add: numeral_2_eq_2 s1 s2 specHex_def specHexPair_def)
  have f3: "?F 3 = ''#0c0000''"
    by (simp add: numeral_3_eq_3 s1 s2 s3 specHex_def specHexPair_def)
  have n1: "\<not> ?P ''#241404''" using ratio_241404_on_76 by (rule num_lt_not_ge)
  have n2: "\<not> ?P ''#180800''" using ratio_180800_on_76 by (rule num_lt_not_ge)
  have "map ?F [1..<21] = [''#241404'', ''#180800''] @ ''#0c0000'' # map ?F [4..<21]"
    unfolding up map_append list.map f1 f2 f3 ..
  moreover have "find ?P ([''#241404'', ''#180800''] @ ''#0c0000'' # map ?F [4..<21]) = Some ''#0c0000''"
    using n1 n2 ratio_0c0000_on_76 by (intro find_split) simp_all
  ultimately show ?thesis by simp
qed


lemma light_fails_on_white:
  assumes "luminance s = Some x" "0.2 \<le> x" "x \<le> 1"
  shows "num_lt (contrastRatio s ''#FFFFFF'') 4.5"
proof -
  have w: "luminance ''#FFFFFF'' = Some 1"
    by (simp add: luminance_def parse_eval gammaWCAG_def)
  have "contrastRatio s ''#FFFFFF'' = Some (1.05 / (x + 0.05))"
    using assms by (simp add: contrastRatio_def w Let_def)
  moreover have "1.05 / (x + 0.05) < 4.5" using assms by (simp add: divide_simps)
  ultimately show ?thesis by (simp add: num_lt_def)
qed

lemma gammaWCAG_light_samples:
  "0.8 \<le> gammaWCAG (240 / 255)" "0.8 \<le> gammaWCAG (252 / 255)"
proof -
  have "gammaWCAG (240 / 255) = (3387 / 3587) powr (12 / 5)" by (simp add: gammaWCAG_def)
  moreover have "(0.8::real) \<le> (3387 / 3587) powr (12 / 5)"
    by (rule powr_12_5_ge) (simp_all add: divide_simps)
  ultimately show "0.8 \<le> gammaWCAG (240 / 255)" by simp
  have "gammaWCAG (252 / 255) = (3547 / 3587) powr (12 / 5)" by (simp add: gammaWCAG_def)
  moreover have "(0.8::real) \<le> (3547 / 3587) powr (12 / 5)"
    by (rule powr_12_5_ge) (simp_all add: divide_simps)
  ultimately show "0.8 \<le> gammaWCAG (252 / 255)" by simp
qed

lemma ratio_F0F0F0_on_white: "num_lt (contrastRatio ''#F0F0F0'' ''#FFFFFF'') 4.5"
proof (rule light_fails_on_white)
  have u: "gammaWCAG (240 / 255) \<le> 1" using gammaWCAG_range[of "240 / 255"] by simp
  show "luminance ''#F0F0F0'' = Some (gammaWCAG (240 / 255))"
    by (simp add: luminance_def parse_eval algebra_simps)
  show "0.2 \<le> gammaWCAG (240 / 255)" using gammaWCAG_light_samples(1) by simp
  show "gammaWCAG (240 / 255) \<le> 1" by (rule u)
qed

lemma ratio_fcfcfc_on_white: "num_lt (contrastRatio ''#fcfcfc'' ''#FFFFFF'') 4.5"
proof (rule light_fails_on_white)
  have u: "gammaWCAG (252 / 255) \<le> 1" using gammaWCAG_range[of "252 / 255"] by simp
  show "luminance ''#fcfcfc'' = Some (gammaWCAG (252 / 255))"
    by (simp add: luminance_def parse_eval algebra_simps)
  show "0.2 \<le> gammaWCAG (252 / 255)" using gammaWCAG_light_samples(2) by simp
  show "gammaWCAG (252 / 255) \<le> 1" by (rule u)
qed

lemma ratio_ffffff_on_white: "num_lt (contrastRatio ''#ffffff'' ''#FFFFFF'') 4.5"
proof (rule light_fails_on_white)
  show "luminance ''#ffffff'' = Some 1" by (simp add: luminance_def parse_eval gammaWCAG_def)
qed simp_all

lemma lighten_F0F0F0_on_white:
  "find (\<lambda>fixed. num_ge (contrastRatio fixed ''#FFFFFF'') 4.5)
     (map (\<lambda>k. specHex ((specStep True ^^ k) (240, 240, 240))) [1..<21]) = None"
proof -
  have st: "(specStep True ^^ k) (240, 240, 240) =
      (if k = 0 then (240, 240, 240) else if k = 1 then (252, 252, 252) else (255, 255, 255))" for k
    by (induction k) (auto simp: specStep_def)
  have "\<not> num_ge (contrastRatio (specHex ((specStep True ^^ k) (240, 240, 240))) ''#FFFFFF'') 4.5"
    if "1 \<le> k" for k
  proof (cases "k = 1")
    case True
    have e: "(specStep True ^^ k) (240, 240, 240) = (252, 252, 252)"
      unfolding True by (simp add: specStep_def)
    have h: "specHex (252, 252, 252) = ''#fcfcfc''" by (simp add: specHex_def specHexPair_def)
    show ?thesis unfolding e h using ratio_fcfcfc_on_white by (rule num_lt_not_ge)
  next
    case False
    have e: "(specStep True ^^ k) (240, 240, 240) = (255, 255, 255)"
      using st[of k] False that by simp
    have h: "specHex (255, 255, 255) = ''#ffffff''" by (simp add: specHex_def specHexPair_def)
    show ?thesis unfolding e h using ratio_ffffff_on_white by (rule num_lt_not_ge)
  qed
  then show ?thesis by (simp add: find_None_iff)
qed

theorem fixTextContrast_steps_to_first_passing_witness:
  "(3::nat) \<le> 3 \<and> 3 < length [''#767676'', ''#111111'', ''#222222'', ''#302010''] \<and>
   num_lt (contrastRatio ''#302010'' ''#767676'') 4.5 \<and>
   num_gt (luminance ''#767676'') 0.5 = False \<and>
   inGamut (48, 32, 16) \<and> map lowerHex ''#302010'' = specHex (48, 32, 16) \<and>
   map (\<lambda>k. specHex ((specStep False ^^ k) (48, 32, 16))) [1, 2, 3]
     = [''#241404'', ''#180800'', ''#0c0000''] \<and>
   fixTextContrast [''#767676'', ''#111111'', ''#222222'', ''#302010''] Map.empty 3 = Some ''#0c0000'' \<and>
   num_lt (contrastRatio ''#F0F0F0'' ''#FFFFFF'') 4.5 \<and>
   num_gt (luminance ''#FFFFFF'') 0.5 = True \<and>
   inGamut (240, 240, 240) \<and> map lowerHex ''#F0F0F0'' = specHex (240, 240, 240) \<and>
   fixTextContrast [''#000000'', ''#111111'', ''#222222'', ''#333333'']
     [0 \<mapsto> ''#FFFFFF'', 3 \<mapsto> ''#F0F0F0''] 3 = Some ''#F0F0F0'' \<and>
   num_lt (contrastRatio ''#0A0A0A'' ''#767676'') 4.5 \<and>
   fixTextContrast [''#767676'', ''#111111'', ''#222222'', ''#0A0A0A''] Map.empty 3 = Some ''#000000''"
proof -
  let ?sw1 = "[''#767676'', ''#111111'', ''#222222'', ''#302010'']"
  let ?sw2 = "[''#000000'', ''#111111'', ''#222222'', ''#333333'']"
  let ?sw3 = "[''#767676'', ''#111111'', ''#222222'', ''#0A0A0A'']"
  let ?cs2 = "[(0::nat) \<mapsto> ''#FFFFFF'', 3 \<mapsto> ''#F0F0F0'']"
  have bg1: "''#767676'' = (case Map.empty (0::nat) of Some v \<Rightarrow> v | None \<Rightarrow> ?sw1 ! 0)" by simp
  have bg2: "''#FFFFFF'' = (case ?cs2 0 of Some v \<Rightarrow> v | None \<Rightarrow> ?sw2 ! 0)" by simp
  have bg3: "''#767676'' = (case Map.empty (0::nat) of Some v \<Rightarrow> v | None \<Rightarrow> ?sw3 ! 0)" by simp
  have cur1: "''#302010'' = (case Map.empty (3::nat) of Some v \<Rightarrow> v | None \<Rightarrow> ?sw1 ! 3)" by simp
  have cur2: "''#F0F0F0'' = (case ?cs2 3 of Some v \<Rightarrow> v | None \<Rightarrow> ?sw2 ! 3)" by simp
  have cur3: "''#0A0A0A'' = (case Map.empty (3::nat) of Some v \<Rightarrow> v | None \<Rightarrow> ?sw3 ! 3)" by simp
  have dir1: "num_gt (luminance ''#767676'') 0.5 = False"
    using gammaWCAG_118 by (simp add: luminance_76 num_gt_def)
  have dir2: "num_gt (luminance ''#FFFFFF'') 0.5 = True"
    by (simp add: luminance_def parse_eval gammaWCAG_def num_gt_def)
  have sp1: "inGamut (48, 32, 16)" "map lowerHex ''#302010'' = specHex (48, 32, 16)"
    by (simp_all add: inGamut_def lowerHex_def specHex_def specHexPair_def)
  have sp2: "inGamut (240, 240, 240)" "map lowerHex ''#F0F0F0'' = specHex (240, 240, 240)"
    by (simp_all add: inGamut_def lowerHex_def specHex_def specHexPair_def)
  have steps: "map (\<lambda>k. specHex ((specStep False ^^ k) (48, 32, 16))) [1, 2, 3]
     = [''#241404'', ''#180800'', ''#0c0000'']"
    by (simp add: numeral_2_eq_2 numeral_3_eq_3 specStep_def specHex_def specHexPair_def)
  have r1: "fixTextContrast ?sw1 Map.empty 3 = Some ''#0c0000''"
    using fixTextContrast_steps_to_first_passing[where swatches = ?sw1 and customSwatches = Map.empty
          and i = 3 and r = 48 and g = 32 and b = 16, OF _ _ bg1 cur1 ratio_302010_on_76,
        THEN conjunct2, THEN conjunct2, THEN conjunct2] sp1 dir1 darken_302010_on_76
    by simp
  have r2: "fixTextContrast ?sw2 ?cs2 3 = Some ''#F0F0F0''"
    using fixTextContrast_steps_to_first_passing[where swatches = ?sw2 and customSwatches = ?cs2
          and i = 3 and r = 240 and g = 240 and b = 240, OF _ _ bg2 cur2 ratio_F0F0F0_on_white,
        THEN conjunct2, THEN conjunct2, THEN conjunct2] sp2 dir2 lighten_F0F0F0_on_white
    by (simp add: fun_upd_def)
  have r3: "fixTextContrast ?sw3 Map.empty 3 = Some ''#000000''"
    using fixTextContrast_steps_to_first_passing[where swatches = ?sw3 and customSwatches = Map.empty
          and i = 3, OF _ _ bg3 cur3 ratio_0A_on_76, THEN conjunct1] dir1
    by (simp add: channels_0A darken_0A_on_76)
  show ?thesis
    using dir1 dir2 sp1 sp2 steps r1 r2 r3 ratio_302010_on_76 ratio_F0F0F0_on_white
      ratio_0A_on_76
    by simp
qed

text \<open>
  C9. The entries at indices 0, 1 and 2 are returned as they were, and so is every
  candidate entry whose current colour already has a ratio of at least 4.5.
\<close>

theorem fixTextContrast_frame:
  "(i < 3 \<longrightarrow> fixTextContrast swatches customSwatches i = customSwatches i) \<and>
   (3 \<le> i \<and> i < length swatches \<and> background swatches customSwatches = Some bg \<and>
      num_ge (contrastRatio (case customSwatches i of Some v \<Rightarrow> v | None \<Rightarrow> swatches ! i) bg) 4.5
    \<longrightarrow> fixTextContrast swatches customSwatches i = customSwatches i)"
proof (intro conjI impI)
  assume "i < 3"
  then show "fixTextContrast swatches customSwatches i = customSwatches i"
    by (cases "background swatches customSwatches")
      (simp_all add: fixTextContrast_no_background fixTextContrast_at fixEntry_low)
next
  assume a: "3 \<le> i \<and> i < length swatches \<and> background swatches customSwatches = Some bg \<and>
      num_ge (contrastRatio (case customSwatches i of Some v \<Rightarrow> v | None \<Rightarrow> swatches ! i) bg) 4.5"
  then have "fixTextContrast swatches customSwatches i = fixEntry swatches bg i customSwatches i"
    by (simp add: fixTextContrast_at)
  then show "fixTextContrast swatches customSwatches i = customSwatches i"
    using a by (simp add: fixEntry_def Let_def)
qed

lemma ratio_white_on_black: "contrastRatio ''#FFFFFF'' ''#000000'' = Some 21"
  by (simp add: contrastRatio_def luminance_def gammaWCAG_def parse_eval)

theorem fixTextContrast_frame_witness:
  "(0::nat) < 3 \<and>
   fixTextContrast [''#000000'', ''#111111'', ''#222222'', ''#FFFFFF''] [0 \<mapsto> ''#000000''] 0
     = Some ''#000000'' \<and>
   (3::nat) \<le> 3 \<and> 3 < length [''#000000'', ''#111111'', ''#222222'', ''#FFFFFF''] \<and>
   background [''#000000'', ''#111111'', ''#222222'', ''#FFFFFF''] [0 \<mapsto> ''#000000'']
     = Some ''#000000'' \<and>
   num_ge (contrastRatio ''#FFFFFF'' ''#000000'') 4.5 \<and>
   fixTextContrast [''#000000'', ''#111111'', ''#222222'', ''#FFFFFF''] [0 \<mapsto> ''#000000''] 3 = None"
proof -
  let ?sw = "[''#000000'', ''#111111'', ''#222222'', ''#FFFFFF'']"
  let ?cs = "[(0::nat) \<mapsto> ''#000000'']"
  have bg: "background ?sw ?cs = Some ''#000000''" by (simp add: background_def)
  have ge: "num_ge (contrastRatio ''#FFFFFF'' ''#000000'') 4.5"
    by (simp add: ratio_white_on_black num_ge_def)
  have a: "fixTextContrast ?sw ?cs 0 = Some ''#000000''"
    using fixTextContrast_frame[of 0 ?sw ?cs] by simp
  have b: "fixTextContrast ?sw ?cs 3 = None"
    using fixTextContrast_frame[of 3 ?sw ?cs "''#000000''"] bg ge by simp
  show ?thesis using a b bg ge by simp
qed

section \<open>Import\<close>

lemma fold_enumerate_at:
  assumes f: "\<And>i h m. f (i, h) m = m(i \<mapsto> h)"
  shows "fold f (enumerate n hs) m j =
     (if n \<le> j \<and> j < n + length hs then Some (hs ! (j - n)) else m j)"
proof (induction hs arbitrary: n m)
  case Nil
  then show ?case by auto
next
  case (Cons x xs)
  have "fold f (enumerate n (x # xs)) m j = fold f (enumerate (Suc n) xs) (m(n \<mapsto> x)) j"
    by (simp add: f)
  also have "\<dots> = (if Suc n \<le> j \<and> j < Suc n + length xs then Some (xs ! (j - Suc n))
                    else (m(n \<mapsto> x)) j)"
    by (rule Cons.IH)
  also have "\<dots> = (if n \<le> j \<and> j < n + length (x # xs) then Some ((x # xs) ! (j - n)) else m j)"
    by (auto simp: nth_Cons')
  finally show ?case .
qed

lemma assignRoles_at:
  "assignRoles hs j = (if j < length hs then Some (hs ! j) else None)"
  unfolding assignRoles_def by (subst fold_enumerate_at) simp_all

lemma matchHexColors_wf: "list_all wfHex (matchHexColors raw)"
  by (induction raw rule: matchHexColors.induct) (auto simp: wfHex_def)

text \<open>
  C8. With fewer than two matches of \<^verbatim>\<open>#RRGGBB\<close> in the text the state is returned as it
  was. With two or more, the overrides become exactly the first up to six matches, in
  order of appearance, at the indices 0 to 5. Every match is a well-formed colour.
\<close>

theorem applyImportText_contract:
  "(length (matchHexColors raw) < 2 \<longrightarrow> applyImportText raw st = st) \<and>
   (2 \<le> length (matchHexColors raw) \<longrightarrow>
      customSwatchesState (applyImportText raw st) i =
        (if i < min 6 (length (matchHexColors raw)) then Some (matchHexColors raw ! i) else None)) \<and>
   list_all wfHex (matchHexColors raw)"
proof (intro conjI impI)
  assume "length (matchHexColors raw) < 2"
  then show "applyImportText raw st = st" by (simp add: applyImportText_def)
next
  assume "2 \<le> length (matchHexColors raw)"
  then show "customSwatchesState (applyImportText raw st) i =
        (if i < min 6 (length (matchHexColors raw)) then Some (matchHexColors raw ! i) else None)"
    by (auto simp: applyImportText_def Let_def assignRoles_at)
next
  show "list_all wfHex (matchHexColors raw)" by (rule matchHexColors_wf)
qed

lemma match_two: "matchHexColors ''bg #0B1220, fg #eaf0ff.'' = [''#0B1220'', ''#eaf0ff'']"
  by (simp add: isHexDigit_def hexDigitValue_def)

lemma match_one: "matchHexColors ''only #0B1220 and #12'' = [''#0B1220'']"
  by (simp add: isHexDigit_def hexDigitValue_def)

theorem applyImportText_contract_witness:
  "length (matchHexColors ''only #0B1220 and #12'') < 2 \<and>
   applyImportText ''only #0B1220 and #12'' st0 = st0 \<and>
   2 \<le> length (matchHexColors ''bg #0B1220, fg #eaf0ff.'') \<and>
   customSwatchesState (applyImportText ''bg #0B1220, fg #eaf0ff.'' st0) 0 = Some ''#0B1220'' \<and>
   customSwatchesState (applyImportText ''bg #0B1220, fg #eaf0ff.'' st0) 1 = Some ''#eaf0ff'' \<and>
   customSwatchesState (applyImportText ''bg #0B1220, fg #eaf0ff.'' st0) 5 = None"
  using applyImportText_contract[of "''only #0B1220 and #12''" st0]
    applyImportText_contract[of "''bg #0B1220, fg #eaf0ff.''" st0 0]
    applyImportText_contract[of "''bg #0B1220, fg #eaf0ff.''" st0 1]
    applyImportText_contract[of "''bg #0B1220, fg #eaf0ff.''" st0 5]
  unfolding match_one match_two by simp

section \<open>The CMYK sentinel\<close>











































lemma wfHex_payload:
  assumes "wfHex s"
  obtains a b c d e f where "slice 0 6 (replaceHash s) = [a, b, c, d, e, f]"
    "isHexDigit a" "isHexDigit b" "isHexDigit c" "isHexDigit d" "isHexDigit e" "isHexDigit f"
proof -
  from assms obtain a b c d e f where s: "s = [CHR ''#'', a, b, c, d, e, f]"
    and h: "isHexDigit a" "isHexDigit b" "isHexDigit c" "isHexDigit d" "isHexDigit e" "isHexDigit f"
    by (rule wfHex_shape)
  have "slice 0 6 (replaceHash s) = [a, b, c, d, e, f]"
    by (simp add: s slice_def replaceHash_def)
  then show ?thesis using that h by blast
qed



section \<open>The OKLCH hue\<close>


lemma atan2_bounds: "- pi < atan2 y x \<and> atan2 y x \<le> pi"
proof -
  have a: "- (pi / 2) < arctan (y / x)" "arctan (y / x) < pi / 2"
    using arctan_bounded[of "y / x"] by simp_all
  have p: "0 < pi" by simp
  consider "0 < x" | "x < 0" "0 \<le> y" | "x < 0" "y < 0" | "x = 0" by linarith
  then show ?thesis
  proof cases
    case 1
    then show ?thesis using a p by (simp add: atan2_def)
  next
    case 2
    then have "y / x \<le> 0" by (simp add: divide_nonneg_neg)
    then have "arctan (y / x) \<le> 0" by (simp add: arctan_le_zero_iff)
    then show ?thesis using 2 a p by (simp add: atan2_def)
  next
    case 3
    then have "0 < y / x" by (simp add: divide_neg_neg)
    then have "0 < arctan (y / x)" by (simp add: zero_less_arctan_iff)
    then show ?thesis using 3 a p by (simp add: atan2_def)
  next
    case 4
    consider "0 < y" | "y < 0" | "y = 0" by linarith
    then have "atan2 y x = pi / 2 \<or> atan2 y x = - (pi / 2) \<or> atan2 y x = 0"
      using 4 by cases (simp_all add: atan2_def)
    then show ?thesis using p by (elim disjE) (intro conjI; linarith)+
  qed
qed

lemma hue_range:
  assumes "- pi < t" "t \<le> pi"
  defines "H0 \<equiv> t * (180 / pi)"
  shows "0 \<le> (if H0 < 0 then H0 + 360 else H0) \<and> (if H0 < 0 then H0 + 360 else H0) < 360"
proof -
  have p: "0 < pi" by simp
  have lo: "- 180 < H0"
  proof -
    have "- pi * (180 / pi) < t * (180 / pi)"
      using assms(1) p by (intro mult_strict_right_mono) simp_all
    then show ?thesis by (simp add: H0_def)
  qed
  have hi: "H0 \<le> 180"
  proof -
    have "t * (180 / pi) \<le> pi * (180 / pi)"
      using assms(2) p by (intro mult_right_mono) simp_all
    then show ?thesis by (simp add: H0_def)
  qed
  show ?thesis using lo hi by auto
qed

text \<open>
  C7. For every well-formed colour the hue computed by \<open>hexToOklch\<close> is a number \<open>H\<close> with
  \<open>0 \<le> H < 360\<close>.
\<close>

theorem hexToOklch_hue_range:
  assumes "wfHex hex"
  shows "\<exists>H. hOk (hexToOklch hex) = Some H \<and> 0 \<le> H \<and> H < 360"
proof -
  from assms obtain a b c d x y where p: "slice 0 6 (replaceHash hex) = [a, b, c, d, x, y]"
    and hx: "isHexDigit a" "isHexDigit b" "isHexDigit c" "isHexDigit d" "isHexDigit x" "isHexDigit y"
    by (rule wfHex_payload)
  obtain r where r: "parseInt16 [a, b] = Some (int r)"
    using parseInt16_two_digits[OF hx(1,2)] by blast
  obtain g where g: "parseInt16 [c, d] = Some (int g)"
    using parseInt16_two_digits[OF hx(3,4)] by blast
  obtain bl where bl: "parseInt16 [x, y] = Some (int bl)"
    using parseInt16_two_digits[OF hx(5,6)] by blast
  have sl: "slice 0 2 [a, b, c, d, x, y] = [a, b]" "slice 2 4 [a, b, c, d, x, y] = [c, d]"
    "slice 4 6 [a, b, c, d, x, y] = [x, y]"
    by (simp_all add: slice_def)
  define R where "R = toLinear (real_of_int (int r))"
  define G where "G = toLinear (real_of_int (int g))"
  define B where "B = toLinear (real_of_int (int bl))"
  define l' where "l' = root 3 (0.4122214708 * R + 0.5363325363 * G + 0.0514459929 * B)"
  define m' where "m' = root 3 (0.2119034982 * R + 0.6806995451 * G + 0.1073969566 * B)"
  define s' where "s' = root 3 (0.0883024619 * R + 0.2817188376 * G + 0.6299787005 * B)"
  define A where "A = 1.9779984951 * l' - 2.428592205 * m' + 0.4505937099 * s'"
  define bOk where "bOk = 0.0259040371 * l' + 0.7827717662 * m' - 0.808675766 * s'"
  define H0 where "H0 = atan2 bOk A * (180 / pi)"
  have "hOk (hexToOklch hex) = Some (if H0 < 0 then H0 + 360 else H0)"
    unfolding hexToOklch_def p sl r g bl Let_def
    by (simp only: prod.case option.case Oklch.select_convs H0_def bOk_def A_def l'_def m'_def
        s'_def R_def G_def B_def)
  moreover have "0 \<le> (if H0 < 0 then H0 + 360 else H0) \<and> (if H0 < 0 then H0 + 360 else H0) < 360"
    unfolding H0_def using atan2_bounds[of bOk A] by (intro hue_range) simp_all
  ultimately show ?thesis by blast
qed

theorem hexToOklch_hue_range_witness:
  "wfHex ''#000000'' \<and> hOk (hexToOklch ''#000000'') = Some 0 \<and>
   (\<exists>H. hOk (hexToOklch ''#000000'') = Some H \<and> 0 \<le> H \<and> H < 360)"
proof -
  have w: "wfHex ''#000000''" by (simp add: wfHex_def isHexDigit_def hexDigitValue_def)
  have h: "hOk (hexToOklch ''#000000'') = Some 0"
    by (simp add: hexToOklch_def replaceHash_def parse_eval toLinear_def atan2_def)
  show ?thesis using w h hexToOklch_hue_range[OF w] by simp
qed

section \<open>JSON strings\<close>

lemma char_eq_of_nat: "(of_char ch :: nat) = of_char d \<Longrightarrow> ch = d"
  by (rule injD[OF inj_of_char])

lemma digitsValue_hex4: "n < 256 \<Longrightarrow> digitsValue (hex4 n) = n"
proof -
  assume n: "n < 256"
  have z: "n div 4096 = 0" "n div 256 = 0" using n by simp_all
  have d: "n div 16 < 16" using n by simp
  have m: "n mod 16 < 16" by simp
  have "digitsValue (hex4 n) = 16 * (n div 16) + n mod 16"
    using d m by (simp add: digitsValue_def hex4_def z hexDigitValue_hexDigitChar)
  then show ?thesis by simp
qed

lemma hex4_hex: "list_all isHexDigit (hex4 n)"
  by (simp add: hex4_def isHexDigit_hexDigitChar)

lemma length_hex4: "length (hex4 n) = 4" by (simp add: hex4_def)

lemma parseChars_unicode:
  assumes "(of_char ch :: nat) < 32"
  shows "parseChars (CHR 0x5C # CHR ''u'' # hex4 (of_char ch) @ rest) = consResult ch (parseChars rest)"
proof -
  have n: "(of_char ch :: nat) < 256" using assms by simp
  have t: "take 4 (hex4 (of_char ch) @ rest) = hex4 (of_char ch)"
    "drop 4 (hex4 (of_char ch) @ rest) = rest"
    by (simp_all add: length_hex4)
  have "digitsValue (hex4 (of_char ch)) = of_char ch" using n by (rule digitsValue_hex4)
  then show ?thesis
    using assms by (simp add: t hex4_hex length_hex4)
qed

lemma parseChars_escape: "parseChars (escapeChar ch @ rest) = consResult ch (parseChars rest)"
proof -
  define n where "n = (of_char ch :: nat)"
  consider "n = 8" | "n = 9" | "n = 10" | "n = 12" | "n = 13" | "n = 34" | "n = 92"
    | "n < 32" "n \<notin> {8, 9, 10, 12, 13}" | "32 \<le> n" "n \<noteq> 34" "n \<noteq> 92"
    by fastforce
  then show ?thesis
  proof cases
    case 1
    then have "ch = CHR 0x08" unfolding n_def by (intro char_eq_of_nat) simp
    then show ?thesis by (simp add: escapeChar_def unescape_def)
  next
    case 2
    then have "ch = CHR 0x09" unfolding n_def by (intro char_eq_of_nat) simp
    then show ?thesis by (simp add: escapeChar_def unescape_def)
  next
    case 3
    then have "ch = CHR 0x0A" unfolding n_def by (intro char_eq_of_nat) simp
    then show ?thesis by (simp add: escapeChar_def unescape_def)
  next
    case 4
    then have "ch = CHR 0x0C" unfolding n_def by (intro char_eq_of_nat) simp
    then show ?thesis by (simp add: escapeChar_def unescape_def)
  next
    case 5
    then have "ch = CHR 0x0D" unfolding n_def by (intro char_eq_of_nat) simp
    then show ?thesis by (simp add: escapeChar_def unescape_def)
  next
    case 6
    then have "ch = CHR 0x22" unfolding n_def by (intro char_eq_of_nat) simp
    then show ?thesis by (simp add: escapeChar_def unescape_def)
  next
    case 7
    then have "ch = CHR 0x5C" unfolding n_def by (intro char_eq_of_nat) simp
    then show ?thesis by (simp add: escapeChar_def unescape_def)
  next
    case 8
    then have "escapeChar ch = CHR 0x5C # CHR ''u'' # hex4 (of_char ch)"
      by (simp add: escapeChar_def n_def)
    then show ?thesis using 8(1) parseChars_unicode[of ch rest] by (simp add: n_def)
  next
    case 9
    then have e: "escapeChar ch = [ch]" by (simp add: escapeChar_def n_def)
    have "ch \<noteq> CHR 0x22" "ch \<noteq> CHR 0x5C" using 9 by (auto simp: n_def)
    then show ?thesis using 9(1) by (simp add: e n_def)
  qed
qed

lemma parseChars_quoted:
  "parseChars (concat (map escapeChar s) @ CHR 0x22 # rest) = Some (s, rest)"
  by (induction s) (simp_all add: parseChars_escape consResult_def)

section \<open>JSON values\<close>

lemma isJsonWs_simps [simp]:
  "isJsonWs (CHR 0x0A)" "isJsonWs (CHR '' '')" "\<not> isJsonWs (CHR 0x22)" "\<not> isJsonWs (CHR ''{'')"
  "\<not> isJsonWs (CHR ''}'')" "\<not> isJsonWs (CHR '':'')" "\<not> isJsonWs (CHR '','')"
  by (simp_all add: isJsonWs_def)

lemma dropWhile_spaces: "spaces w \<Longrightarrow> dropWhile isJsonWs (w @ s) = dropWhile isJsonWs s"
  by (induction w) (auto simp: spaces_def)

lemma spaces_append: "spaces a \<Longrightarrow> spaces b \<Longrightarrow> spaces (a @ b)"
  by (simp add: spaces_def)

lemma spaces_two: "spaces ''  ''" by (simp add: spaces_def)

lemma quoteJSON_Cons: "quoteJSON s @ rest = CHR 0x22 # concat (map escapeChar s) @ CHR 0x22 # rest"
  by (simp add: quoteJSON_def)

lemma parseValue_skip:
  "dropWhile isJsonWs s = dropWhile isJsonWs t \<Longrightarrow> parseValue fuel s = parseValue fuel t"
  by (cases fuel) simp_all

lemma parseMembers_skip:
  "dropWhile isJsonWs s = dropWhile isJsonWs t \<Longrightarrow> parseMembers fuel acc s = parseMembers fuel acc t"
  by (cases fuel) simp_all

lemma serialize_object:
  "ps \<noteq> [] \<Longrightarrow> serialize indent (JObject ps) @ rest =
     CHR ''{'' # CHR 0x0A # (indent @ ''  '')
        @ joinWith ('','' @ [CHR 0x0A] @ (indent @ ''  '')) (map (member (indent @ ''  '')) ps)
        @ (CHR 0x0A # indent @ CHR ''}'' # rest)"
  by (simp add: member_def[abs_def])

lemma member_append:
  "member ind (k, v) @ X =
     CHR 0x22 # concat (map escapeChar k) @ CHR 0x22 # CHR '':'' # CHR '' '' # serialize ind v @ X"
  by (simp add: member_def quoteJSON_def)

lemma parseMembers_roundtrip:
  assumes IH: "\<And>p fuel rest. p \<in> set ps \<Longrightarrow> cost (snd p) \<le> fuel \<Longrightarrow>
          parseValue fuel (serialize ind (snd p) @ rest) = Some (snd p, rest)"
    and ne: "ps \<noteq> []"
    and fuel: "sum_list (map (\<lambda>p. 1 + cost (snd p)) ps) \<le> fuel"
    and ind: "spaces ind"
    and tail: "dropWhile isJsonWs tail = CHR ''}'' # rest"
  shows "parseMembers fuel acc (joinWith ('','' @ [CHR 0x0A] @ ind) (map (member ind) ps) @ tail)
      = Some (JObject (acc @ ps), rest)"
  using IH ne fuel
proof (induction ps arbitrary: fuel acc)
  case Nil
  then show ?case by simp
next
  case (Cons p ps)
  obtain k v where p: "p = (k, v)" by (cases p)
  obtain m where m: "fuel = Suc m" using Cons.prems(3) by (cases fuel) auto
  have cv: "cost v \<le> m" using Cons.prems(3) m p by simp
  have val: "parseValue m (CHR '' '' # serialize ind v @ X) = Some (v, X)" for X
  proof -
    have "parseValue m (CHR '' '' # serialize ind v @ X) = parseValue m (serialize ind v @ X)"
      by (rule parseValue_skip) simp
    then show ?thesis using Cons.prems(1)[of p m X] cv p by simp
  qed
  show ?case
  proof (cases ps)
    case Nil
    then show ?thesis
      by (simp add: m p member_append parseChars_quoted val tail del: serialize.simps)
  next
    case (Cons q qs)
    have rest_fuel: "sum_list (map (\<lambda>p. 1 + cost (snd p)) ps) \<le> m"
      using Cons.prems(3) m by simp
    have step: "parseMembers m (acc @ [p]) (joinWith ('','' @ [CHR 0x0A] @ ind) (map (member ind) ps) @ tail)
        = Some (JObject ((acc @ [p]) @ ps), rest)"
      using Cons.prems(1) rest_fuel Cons by (intro Cons.IH) auto
    have skip: "parseMembers m (acc @ [p])
          (CHR 0x0A # ind @ joinWith ('','' @ [CHR 0x0A] @ ind) (map (member ind) ps) @ tail)
        = parseMembers m (acc @ [p]) (joinWith ('','' @ [CHR 0x0A] @ ind) (map (member ind) ps) @ tail)"
      by (rule parseMembers_skip) (simp add: dropWhile_spaces[OF ind])
    show ?thesis
      using step skip Cons
      by (simp add: m p member_append parseChars_quoted val del: serialize.simps)
  qed
qed

lemma parseValue_roundtrip:
  "spaces ind \<Longrightarrow> cost v \<le> fuel \<Longrightarrow> parseValue fuel (serialize ind v @ rest) = Some (v, rest)"
proof (induction v arbitrary: ind fuel rest)
  case (JString s)
  then obtain n where "fuel = Suc n" by (cases fuel) auto
  then show ?case by (simp add: quoteJSON_Cons parseChars_quoted)
next
  case (JObject ps)
  obtain n where n: "fuel = Suc n" using JObject.prems(2) by (cases fuel) auto
  show ?case
  proof (cases "ps = []")
    case True
    then show ?thesis by (simp add: n)
  next
    case False
    have ind': "spaces (ind @ ''  '')" using JObject.prems(1) spaces_two by (rule spaces_append)
    have IH: "parseValue f (serialize (ind @ ''  '') (snd p) @ r) = Some (snd p, r)"
      if "p \<in> set ps" "cost (snd p) \<le> f" for p f r
    proof -
      obtain k v where p: "p = (k, v)" by (cases p)
      have "v \<in> Basic_BNFs.snds p" by (simp add: p)
      then show ?thesis using JObject.IH[OF that(1) _ ind', of v f r] that(2) p by simp
    qed
    have tail: "dropWhile isJsonWs (CHR 0x0A # ind @ CHR ''}'' # rest) = CHR ''}'' # rest"
      by (simp add: dropWhile_spaces[OF JObject.prems(1)])
    have fl: "sum_list (map (\<lambda>p. 1 + cost (snd p)) ps) \<le> n"
      using JObject.prems(2) n by simp
    have mem: "parseMembers n []
        (joinWith ('','' @ [CHR 0x0A] @ (ind @ ''  '')) (map (member (ind @ ''  '')) ps)
           @ (CHR 0x0A # ind @ CHR ''}'' # rest)) = Some (JObject ([] @ ps), rest)"
      using IH False fl ind' tail by (rule parseMembers_roundtrip)
    obtain p qs where ps: "ps = p # qs" using False by (cases ps) auto
    let ?body = "joinWith ('','' @ [CHR 0x0A] @ (ind @ ''  '')) (map (member (ind @ ''  '')) ps)
           @ (CHR 0x0A # ind @ CHR ''}'' # rest)"
    have "dropWhile isJsonWs ((ind @ ''  '') @ ?body) = dropWhile isJsonWs ?body"
      by (rule dropWhile_spaces[OF ind'])
    moreover have "dropWhile isJsonWs (CHR 0x0A # (ind @ ''  '') @ ?body)
          = dropWhile isJsonWs ((ind @ ''  '') @ ?body)"
      by (simp del: append_assoc)
    ultimately have dw: "dropWhile isJsonWs (CHR 0x0A # (ind @ ''  '') @ ?body)
        = dropWhile isJsonWs ?body"
      by (rule trans[rotated])
    have skip: "parseMembers n [] (CHR 0x0A # (ind @ ''  '') @ ?body) = parseMembers n [] ?body"
      using dw by (rule parseMembers_skip)
    obtain t where body: "joinWith ('','' @ [CHR 0x0A] @ (ind @ ''  '')) (map (member (ind @ ''  '')) ps)
           @ (CHR 0x0A # ind @ CHR ''}'' # rest) = CHR 0x22 # t"
      by (cases qs; cases p) (simp_all add: ps member_append del: serialize.simps)
    have "dropWhile isJsonWs ?body = CHR 0x22 # t" unfolding body by simp
    with dw have first: "dropWhile isJsonWs (CHR 0x0A # (ind @ ''  '') @ ?body) = CHR 0x22 # t"
      by (rule trans)
    have "parseValue (Suc n) (CHR ''{'' # CHR 0x0A # (ind @ ''  '') @ ?body)
        = parseMembers n [] (CHR 0x0A # (ind @ ''  '') @ ?body)"
      using first by (simp del: append_assoc)
    then show ?thesis
      unfolding serialize_object[OF False] n using mem skip by simp
  qed
qed

section \<open>The round trip of the internal format\<close>

lemma length_joinWith: "sum_list (map length xs) \<le> length (joinWith sep xs)"
  by (induction sep xs rule: joinWith.induct) simp_all

lemma cost_le_length: "cost v \<le> length (serialize ind v)"
proof (induction v arbitrary: ind)
  case (JString s)
  then show ?case by (simp add: quoteJSON_def)
next
  case (JObject ps)
  show ?case
  proof (cases "ps = []")
    case True
    then show ?thesis by simp
  next
    case False
    let ?f = "\<lambda>p. quoteJSON (fst p) @ '': '' @ serialize (ind @ ''  '') (snd p)"
    have "1 + cost (snd p) \<le> length (?f p)" if "p \<in> set ps" for p
    proof -
      obtain k v where p: "p = (k, v)" by (cases p)
      have "v \<in> Basic_BNFs.snds p" by (simp add: p)
      then have "cost v \<le> length (serialize (ind @ ''  '') v)" using JObject.IH[OF that] by simp
      then show ?thesis by (simp add: p)
    qed
    then have "sum_list (map (\<lambda>p. 1 + cost (snd p)) ps) \<le> sum_list (map (\<lambda>p. length (?f p)) ps)"
      by (intro sum_list_mono) simp
    also have "\<dots> = sum_list (map length (map ?f ps))" by (simp add: comp_def)
    also have "\<dots> \<le> length (joinWith ('','' @ [CHR 0x0A] @ (ind @ ''  '')) (map ?f ps))"
      by (rule length_joinWith)
    finally show ?thesis using False by simp
  qed
qed

lemma JSON_parse_serialize: "JSON_parse (serialize [] v) = Some v"
proof -
  have "parseValue (length (serialize [] v)) (serialize [] v @ []) = Some (v, [])"
    by (intro parseValue_roundtrip cost_le_length) (simp add: spaces_def)
  then show ?thesis by (simp add: JSON_parse_def)
qed

lemma update_fresh: "k \<notin> fst ` set al \<Longrightarrow> AList.update k v al = al @ [(k, v)]"
  by (induction al) auto

lemma fold_objSet:
  assumes "distinct (map name cs)" "''__proto__'' \<notin> set (map name cs)"
    "set (map name cs) \<inter> fst ` set acc = {}"
  shows "fold (\<lambda>c obj. objSet (name c) (value c) obj) cs acc = acc @ map (\<lambda>c. (name c, value c)) cs"
  using assms
proof (induction cs arbitrary: acc)
  case Nil
  then show ?case by simp
next
  case (Cons c cs)
  have fresh: "name c \<notin> fst ` set acc" using Cons.prems(3) by auto
  have step: "objSet (name c) (value c) acc = acc @ [(name c, value c)]"
    using Cons.prems(2) fresh by (auto simp: objSet_def update_fresh)
  have "set (map name cs) \<inter> fst ` set (acc @ [(name c, value c)]) = {}"
    using Cons.prems(1,3) by auto
  then have "fold (\<lambda>c obj. objSet (name c) (value c) obj) cs (acc @ [(name c, value c)])
      = (acc @ [(name c, value c)]) @ map (\<lambda>c. (name c, value c)) cs"
    using Cons.prems(1,2) by (intro Cons.IH) auto
  then show ?case by (simp add: step)
qed

lemma overridesOf_distinct:
  "distinct (map name cs) \<Longrightarrow> ''__proto__'' \<notin> set (map name cs) \<Longrightarrow>
   overridesOf cs = map (\<lambda>c. (name c, value c)) cs"
  unfolding overridesOf_def by (subst fold_objSet) simp_all

lemma set_ownEntries: "set (ownEntries obj) = set obj"
  by (auto simp: ownEntries_def)

lemma distinct_ownEntries:
  assumes "distinct (map fst obj)"
  shows "distinct (map fst (ownEntries obj))"
proof -
  let ?A = "filter (\<lambda>p. isArrayIndex (fst p)) obj"
  let ?B = "filter (\<lambda>p. \<not> isArrayIndex (fst p)) obj"
  have dA: "distinct (map fst ?A)" and dB: "distinct (map fst ?B)"
    using assms by (simp_all add: distinct_map_filter)
  have "distinct (map fst (sort_key (\<lambda>p. decValue (fst p)) ?A))"
    using dA by (simp add: distinct_map)
  moreover have "fst ` set (sort_key (\<lambda>p. decValue (fst p)) ?A) \<inter> fst ` set ?B = {}"
    by auto
  ultimately show ?thesis using dB by (simp add: ownEntries_def)
qed

lemma map_of_ownEntries:
  "distinct (map fst obj) \<Longrightarrow> map_of (ownEntries obj) = map_of obj"
  by (simp add: map_of_inject_set distinct_ownEntries set_ownEntries)

lemma map_of_map_snd:
  "map_of (map (\<lambda>p. (fst p, f (snd p))) xs) = map_option f \<circ> map_of xs"
  by (induction xs) (auto simp: fun_eq_iff)

lemma JSON_parse_export:
  "JSON_parse (exportToPaletteLive colors) = Some (JObject
     [(''version'', JString ''1.0''), (''format'', JString ''palettelive''),
      (''overrides'', JObject (map (\<lambda>p. (fst p, JString (snd p))) (ownEntries (overridesOf colors))))])"
  unfolding exportToPaletteLive_def Let_def by (rule JSON_parse_serialize)

text \<open>
  C6, amended. For a list with unique role names, none of them \<^verbatim>\<open>__proto__\<close>, parsing the
  output of \<open>exportToPaletteLive\<close> yields the record with version \<^verbatim>\<open>1.0\<close>, format
  \<^verbatim>\<open>palettelive\<close> and an overrides object that is, as a map from names to colours, the
  input list.
\<close>

theorem exportToPaletteLive_roundtrip:
  assumes "distinct (map name colors)" "''__proto__'' \<notin> set (map name colors)"
  shows "\<exists>ovs. JSON_parse (exportToPaletteLive colors) = Some (JObject
           [(''version'', JString ''1.0''), (''format'', JString ''palettelive''),
            (''overrides'', JObject ovs)]) \<and>
         map_of ovs = map_of (map (\<lambda>c. (name c, JString (value c))) colors)"
proof -
  let ?obj = "map (\<lambda>c. (name c, value c)) colors"
  let ?ovs = "map (\<lambda>p. (fst p, JString (snd p))) (ownEntries (overridesOf colors))"
  have o: "overridesOf colors = ?obj" using assms by (rule overridesOf_distinct)
  have d: "distinct (map fst ?obj)" using assms(1) by (simp add: comp_def)
  have "map_of ?ovs = map_option JString \<circ> map_of (ownEntries ?obj)"
    unfolding o by (rule map_of_map_snd)
  also have "\<dots> = map_option JString \<circ> map_of ?obj"
    using d by (simp add: map_of_ownEntries)
  also have "\<dots> = map_of (map (\<lambda>p. (fst p, JString (snd p))) ?obj)"
    by (rule map_of_map_snd[symmetric])
  also have "\<dots> = map_of (map (\<lambda>c. (name c, JString (value c))) colors)"
    by (simp add: comp_def)
  finally have "map_of ?ovs = map_of (map (\<lambda>c. (name c, JString (value c))) colors)" .
  then show ?thesis using JSON_parse_export[of colors] by blast
qed

theorem exportToPaletteLive_roundtrip_witness:
  "distinct (map name [\<lparr>name = ''--color-bg'', value = ''#0B1220''\<rparr>,
                       \<lparr>name = ''--color-text'', value = ''#EAF0FF''\<rparr>]) \<and>
   ''__proto__'' \<notin> set (map name [\<lparr>name = ''--color-bg'', value = ''#0B1220''\<rparr>,
                                    \<lparr>name = ''--color-text'', value = ''#EAF0FF''\<rparr>]) \<and>
   (\<exists>ovs. JSON_parse (exportToPaletteLive [\<lparr>name = ''--color-bg'', value = ''#0B1220''\<rparr>,
                                            \<lparr>name = ''--color-text'', value = ''#EAF0FF''\<rparr>])
       = Some (JObject [(''version'', JString ''1.0''), (''format'', JString ''palettelive''),
                        (''overrides'', JObject ovs)]) \<and>
      map_of ovs = map_of [(''--color-bg'', JString ''#0B1220''),
                           (''--color-text'', JString ''#EAF0FF'')])"
proof -
  let ?cs = "[\<lparr>name = ''--color-bg'', value = ''#0B1220''\<rparr>,
              \<lparr>name = ''--color-text'', value = ''#EAF0FF''\<rparr>]"
  have a: "distinct (map name ?cs)" by simp
  have b: "''__proto__'' \<notin> set (map name ?cs)" by simp
  show ?thesis using exportToPaletteLive_roundtrip[OF a b] a b by simp
qed

text \<open>
  C6, as stated, fails for the role name \<^verbatim>\<open>__proto__\<close>: the one-entry list has unique
  names, its export is the export of the empty list, and the parsed overrides are empty.
\<close>

theorem exportToPaletteLive_proto_counterexample:
  "distinct (map name [\<lparr>name = ''__proto__'', value = ''#000000''\<rparr>]) \<and>
   exportToPaletteLive [\<lparr>name = ''__proto__'', value = ''#000000''\<rparr>] = exportToPaletteLive [] \<and>
   JSON_parse (exportToPaletteLive [\<lparr>name = ''__proto__'', value = ''#000000''\<rparr>])
     = Some (JObject [(''version'', JString ''1.0''), (''format'', JString ''palettelive''),
                      (''overrides'', JObject [])]) \<and>
   map_of ([] :: (string \<times> json) list) ''__proto__''
     \<noteq> map_of [(''__proto__'', JString ''#000000'')] ''__proto__''"
proof -
  have o: "overridesOf [\<lparr>name = ''__proto__'', value = ''#000000''\<rparr>] = []"
    by (simp add: overridesOf_def objSet_def)
  have o2: "overridesOf [] = []" by (simp add: overridesOf_def)
  have e: "exportToPaletteLive [\<lparr>name = ''__proto__'', value = ''#000000''\<rparr>] = exportToPaletteLive []"
    by (simp only: exportToPaletteLive_def o o2)
  have p: "JSON_parse (exportToPaletteLive [\<lparr>name = ''__proto__'', value = ''#000000''\<rparr>])
     = Some (JObject [(''version'', JString ''1.0''), (''format'', JString ''palettelive''),
                      (''overrides'', JObject [])])"
    using JSON_parse_export[of "[\<lparr>name = ''__proto__'', value = ''#000000''\<rparr>]"]
    by (simp add: o ownEntries_def)
  show ?thesis using e p by simp
qed

end
